theory Spec2Isabelle
  imports Main
begin

section \<open>The property graph store\<close>

text \<open>
  The builder of \<^verbatim>\<open>src/graph/heron/heron_graph_builder.py\<close> talks to a remote property
  graph through Gremlin traversals. The store is modelled as the list of vertices and the
  list of edges it holds, in creation order. A vertex handle is the position of the vertex
  in that list: the store hands out a fresh identity at every \<^verbatim>\<open>addV\<close> and the builder
  never deletes, so positions are stable. Property values are Python strings or integers.
\<close>

datatype pval = PStr string | PInt int

record vertex =
  vlabel :: string
  vprops :: "(string \<times> pval) list"

record edge =
  elabel :: string
  outV :: nat
  inV :: nat
  eprops :: "(string \<times> pval) list"

record graph =
  vertices :: "vertex list"
  edges :: "edge list"

definition empty_graph :: graph where
  "empty_graph = \<lparr>vertices = [], edges = []\<rparr>"

text \<open>Modelled from the spec: the graph store is an external service, reached through
  \<^verbatim>\<open>self.graph_traversal\<close>; its operations are the spec's \<open>AddVertex\<close>, \<open>AddEdge\<close> and
  \<open>FindVertices\<close>. \<^verbatim>\<open>addV(label).property(k1, v1)...next()\<close> creates one new vertex and
  returns its handle.\<close>

definition addV :: "string \<Rightarrow> (string \<times> pval) list \<Rightarrow> graph \<Rightarrow> nat \<times> graph" where
  "addV label props g =
     (length (vertices g), g\<lparr>vertices := vertices g @ [\<lparr>vlabel = label, vprops = props\<rparr>]\<rparr>)"

text \<open>Modelled from the spec: \<^verbatim>\<open>V(src).addE(label).property(...).to(dst).next()\<close> creates one
  edge between two vertex handles that the store returned before.\<close>

definition addE :: "nat \<Rightarrow> string \<Rightarrow> (string \<times> pval) list \<Rightarrow> nat \<Rightarrow> graph \<Rightarrow> graph" where
  "addE src label props dst g =
     g\<lparr>edges := edges g @ [\<lparr>elabel = label, outV = src, inV = dst, eprops = props\<rparr>]\<rparr>"

text \<open>Modelled from the spec: the conjunctive equality filters of a query. \<open>prop_values\<close>
  are the values a vertex holds under a property key; \<^verbatim>\<open>has(key, value)\<close> and
  \<^verbatim>\<open>hasLabel(label)\<close> are the two filter steps the builder uses.\<close>

definition prop_values :: "string \<Rightarrow> vertex \<Rightarrow> pval list" where
  "prop_values k v = map snd (filter (\<lambda>p. fst p = k) (vprops v))"

definition has :: "string \<Rightarrow> pval \<Rightarrow> vertex \<Rightarrow> bool" where
  "has k x v = (x \<in> set (prop_values k v))"

definition hasLabel :: "string \<Rightarrow> vertex \<Rightarrow> bool" where
  "hasLabel l v = (vlabel v = l)"

text \<open>Modelled from the spec: \<^verbatim>\<open>V().<filters>.toList()\<close> returns the handles of the vertices
  that pass the filters, in store order.\<close>

definition V_where :: "(vertex \<Rightarrow> bool) \<Rightarrow> graph \<Rightarrow> nat list" where
  "V_where P g = filter (\<lambda>i. P (vertices g ! i)) [0..<length (vertices g)]"

section \<open>Errors and control flow\<close>

text \<open>
  Every exception of the source is a value. \<open>IndexError\<close>, \<open>ValueError\<close> and \<open>KeyError\<close>
  are Python's own; \<open>LookupError\<close> is what the store answers when the traversal given to
  \<^verbatim>\<open>to(...)\<close> finds no vertex; \<open>ParseError\<close> and \<open>PlanFetchError\<close> are available to the
  two collaborators the builder imports (the instance-name decoder and the tracker client).
  A step takes the graph and returns the raised error, if any, with the graph as the step
  left it: the store has no transaction, so what was written before a failure stays.
\<close>

datatype error =
    IndexError
  | ValueError
  | KeyError string
  | LookupError
  | ParseError string
  | PlanFetchError string

type_synonym step = "graph \<Rightarrow> error option \<times> graph"

text \<open>Two statements in sequence: the second runs only if the first raised nothing.\<close>

definition and_then :: "step \<Rightarrow> step \<Rightarrow> step" where
  "and_then s t g = (case s g of (None, g') \<Rightarrow> t g' | (Some e, g') \<Rightarrow> (Some e, g'))"

text \<open>A Python \<^verbatim>\<open>for\<close> loop whose body may raise: the loop stops at the first error.\<close>

fun for_each :: "('a \<Rightarrow> step) \<Rightarrow> 'a list \<Rightarrow> step" where
  "for_each body [] g = (None, g)"
| "for_each body (x # xs) g =
     (case body x g of
        (None, g') \<Rightarrow> for_each body xs g'
      | (Some e, g') \<Rightarrow> (Some e, g'))"

text \<open>\<^verbatim>\<open>d[k]\<close> on a dictionary, kept as the list of its items in insertion order.\<close>

definition lookup :: "(string \<times> 'v) list \<Rightarrow> string \<Rightarrow> error + 'v" where
  "lookup d k = (case map_of d k of None \<Rightarrow> Inl (KeyError k) | Some v \<Rightarrow> Inr v)"

section \<open>Decoding a stream manager id\<close>

text \<open>
  \<^verbatim>\<open>int(stream_manager["id"].split("-")[1])\<close>. \<open>split\<close> is Python's \<^verbatim>\<open>str.split(sep)\<close>
  for a one-character separator; indexing the result at 1 raises \<open>IndexError\<close> when the
  id holds no separator. \<open>py_int\<close> is CPython's \<^verbatim>\<open>int(s)\<close> in base ten on a string of
  Latin-1 characters: the blanks it drops at both ends are the characters 9 to 13, 32, 133
  and 160; one sign may come first; the digits are \<open>0\<close> to \<open>9\<close>, with single underscores
  allowed between two digits; anything else raises \<open>ValueError\<close>. So does a literal of more
  digits than the interpreter allows: \<open>max_str_digits\<close> is the interpreter's
  \<^verbatim>\<open>sys.get_int_max_str_digits()\<close> (4300 unless configured; 0 switches the check off, and an
  interpreter without this setting behaves as with 0), which applies to more than 640 digits.
\<close>

fun split :: "char \<Rightarrow> string \<Rightarrow> string list" where
  "split sep [] = [[]]"
| "split sep (c # cs) =
     (if c = sep then [] # split sep cs
      else (c # hd (split sep cs)) # tl (split sep cs))"

definition index1 :: "'a list \<Rightarrow> error + 'a" where
  "index1 xs = (if 1 < length xs then Inr (xs ! 1) else Inl IndexError)"

definition py_isspace :: "char \<Rightarrow> bool" where
  "py_isspace c =
     (let n = (of_char c :: nat)
      in (9 \<le> n \<and> n \<le> 13) \<or> n = 32 \<or> n = 133 \<or> n = 160)"

definition is_digit :: "char \<Rightarrow> bool" where
  "is_digit c = (let n = (of_char c :: nat) in 48 \<le> n \<and> n \<le> 57)"

definition digit_value :: "char \<Rightarrow> nat" where
  "digit_value c = (of_char c :: nat) - 48"

definition strip :: "string \<Rightarrow> string" where
  "strip s = rev (dropWhile py_isspace (rev (dropWhile py_isspace s)))"

text \<open>The digits of a Python integer literal: \<open>prev\<close> says that the character just read
  was a digit, which is where an underscore, or the end of the string, may stand.\<close>

fun parse_digits :: "bool \<Rightarrow> nat \<Rightarrow> string \<Rightarrow> nat option" where
  "parse_digits prev acc [] = (if prev then Some acc else None)"
| "parse_digits prev acc (c # cs) =
     (if is_digit c then parse_digits True (10 * acc + digit_value c) cs
      else if c = CHR ''_'' \<and> prev then parse_digits False acc cs
      else None)"

definition too_many_digits :: "nat \<Rightarrow> string \<Rightarrow> bool" where
  "too_many_digits max_str_digits ds =
     (let digits = length (filter is_digit ds)
      in 640 < digits \<and> 0 < max_str_digits \<and> max_str_digits < digits)"

definition py_int_unsigned :: "nat \<Rightarrow> string \<Rightarrow> error + nat" where
  "py_int_unsigned max_str_digits ds =
     (case parse_digits False 0 ds of
        None \<Rightarrow> Inl ValueError
      | Some n \<Rightarrow> if too_many_digits max_str_digits ds then Inl ValueError else Inr n)"

definition py_int :: "nat \<Rightarrow> string \<Rightarrow> error + int" where
  "py_int max_str_digits s =
     (case strip s of
        [] \<Rightarrow> Inl ValueError
      | c # cs \<Rightarrow>
          if c = CHR ''-'' then
            (case py_int_unsigned max_str_digits cs of Inl e \<Rightarrow> Inl e | Inr n \<Rightarrow> Inr (- int n))
          else if c = CHR ''+'' then
            (case py_int_unsigned max_str_digits cs of Inl e \<Rightarrow> Inl e | Inr n \<Rightarrow> Inr (int n))
          else
            (case py_int_unsigned max_str_digits (c # cs) of
               Inl e \<Rightarrow> Inl e
             | Inr n \<Rightarrow> Inr (int n)))"

definition container_of_stmgr_id :: "nat \<Rightarrow> string \<Rightarrow> error + int" where
  "container_of_stmgr_id max_str_digits s =
     (case index1 (split CHR ''-'' s) of
        Inl e \<Rightarrow> Inl e
      | Inr seg \<Rightarrow> py_int max_str_digits seg)"

section \<open>The plan documents\<close>

text \<open>
  The shapes the builder reads. Keys the source writes as literals are record fields;
  dictionaries keyed by data (broker ids, component names, instance tokens) are item
  lists, so that iteration order is the dictionary's.
\<close>

record stream_manager =
  sm_id :: string
  host :: pval
  port :: pval
  shell_port :: pval

record instance_info =
  stmgrId :: string

record physical_plan =
  stmgrs :: "(string \<times> stream_manager) list"
  physical_spouts :: "(string \<times> string list) list"
  physical_bolts :: "(string \<times> string list) list"
  instances :: "(string \<times> instance_info) list"

record spout_data =
  spout_type :: pval
  spout_source :: pval

record incoming_stream =
  component_name :: string
  stream_name :: string
  grouping :: string

record bolt_data =
  inputs :: "incoming_stream list"

record logical_plan =
  spouts :: "(string \<times> spout_data) list"
  bolts :: "(string \<times> bolt_data) list"

text \<open>What \<^verbatim>\<open>parse_instance_name\<close> returns. The decoder lives in the tracker module,
  which the builder imports; every definition below takes it as the parameter \<open>parse\<close>.\<close>

record parsed_instance =
  container :: int
  task_id :: int

type_synonym parser = "string \<Rightarrow> error + parsed_instance"

section \<open>The builder\<close>

definition tags :: "string \<Rightarrow> string \<Rightarrow> (string \<times> pval) list" where
  "tags topology_id topology_ref =
     [(''topology_id'', PStr topology_id), (''topology_ref'', PStr topology_ref)]"

subsection \<open>\<^verbatim>\<open>_create_stream_managers\<close>\<close>

definition create_stream_manager ::
  "nat \<Rightarrow> string \<Rightarrow> string \<Rightarrow> stream_manager \<Rightarrow> step" where
  "create_stream_manager max_str_digits topology_id topology_ref sm g =
     (let (strmg, g1) =
            addV ''stream_manager''
              ([(''id'', PStr (sm_id sm)), (''host'', host sm), (''port'', port sm),
                (''shell_port'', shell_port sm)] @ tags topology_id topology_ref) g
      in case container_of_stmgr_id max_str_digits (sm_id sm) of
           Inl e \<Rightarrow> (Some e, g1)
         | Inr c \<Rightarrow>
             (let (cont, g2) =
                    addV ''container'' ((''id'', PInt c) # tags topology_id topology_ref) g1
              in (None, addE strmg ''is_within'' [] cont g2)))"

definition create_stream_managers ::
  "nat \<Rightarrow> string \<Rightarrow> string \<Rightarrow> physical_plan \<Rightarrow> step" where
  "create_stream_managers max_str_digits topology_id topology_ref pp =
     for_each (create_stream_manager max_str_digits topology_id topology_ref)
       (map snd (stmgrs pp))"

subsection \<open>\<^verbatim>\<open>_create_spouts\<close> and \<^verbatim>\<open>_create_bolts\<close>\<close>

text \<open>The inner traversal of both: the container vertices of the snapshot with a given id.\<close>

definition is_container :: "string \<Rightarrow> string \<Rightarrow> int \<Rightarrow> vertex \<Rightarrow> bool" where
  "is_container topology_id topology_ref c v =
     (hasLabel ''container'' v \<and> has ''topology_id'' (PStr topology_id) v
      \<and> has ''topology_ref'' (PStr topology_ref) v \<and> has ''id'' (PInt c) v)"

text \<open>Modelled from the spec: \<^verbatim>\<open>V(src).addE(label).to(<traversal>).next()\<close> creates the edge
  to the first vertex the inner traversal yields; when it yields none the store refuses the
  step, which the spec calls \<open>LookupError\<close> (the expected container vertex is absent).\<close>

definition addE_to :: "nat \<Rightarrow> string \<Rightarrow> (vertex \<Rightarrow> bool) \<Rightarrow> step" where
  "addE_to src label P g =
     (case V_where P g of
        [] \<Rightarrow> (Some LookupError, g)
      | dst # _ \<Rightarrow> (None, addE src label [] dst g))"

definition create_spout_instance ::
  "parser \<Rightarrow> string \<Rightarrow> string \<Rightarrow> physical_plan \<Rightarrow> string \<Rightarrow> spout_data \<Rightarrow> string \<Rightarrow> step" where
  "create_spout_instance parse topology_id topology_ref pp spout_name sd instance_name g =
     (case parse instance_name of
        Inl e \<Rightarrow> (Some e, g)
      | Inr inst \<Rightarrow>
          (case lookup (instances pp) instance_name of
             Inl e \<Rightarrow> (Some e, g)
           | Inr info \<Rightarrow>
               (let (spout, g1) =
                      addV ''spout''
                        ([(''container'', PInt (container inst)), (''task_id'', PInt (task_id inst)),
                          (''component'', PStr spout_name),
                          (''stream_manager'', PStr (stmgrId info)),
                          (''spout_type'', spout_type sd), (''spout_source'', spout_source sd)]
                         @ tags topology_id topology_ref) g
                in addE_to spout ''is_within''
                     (is_container topology_id topology_ref (container inst)) g1)))"

definition create_spout_component ::
  "parser \<Rightarrow> string \<Rightarrow> string \<Rightarrow> physical_plan \<Rightarrow> string \<times> spout_data \<Rightarrow> step" where
  "create_spout_component parse topology_id topology_ref pp item g =
     (case lookup (physical_spouts pp) (fst item) of
        Inl e \<Rightarrow> (Some e, g)
      | Inr names \<Rightarrow>
          for_each (create_spout_instance parse topology_id topology_ref pp (fst item) (snd item))
            names g)"

definition create_spouts ::
  "parser \<Rightarrow> string \<Rightarrow> string \<Rightarrow> physical_plan \<Rightarrow> logical_plan \<Rightarrow> step" where
  "create_spouts parse topology_id topology_ref pp lp =
     for_each (create_spout_component parse topology_id topology_ref pp) (spouts lp)"

definition create_bolt_instance ::
  "parser \<Rightarrow> string \<Rightarrow> string \<Rightarrow> physical_plan \<Rightarrow> string \<Rightarrow> string \<Rightarrow> step" where
  "create_bolt_instance parse topology_id topology_ref pp bolt_name instance_name g =
     (case parse instance_name of
        Inl e \<Rightarrow> (Some e, g)
      | Inr inst \<Rightarrow>
          (case lookup (instances pp) instance_name of
             Inl e \<Rightarrow> (Some e, g)
           | Inr info \<Rightarrow>
               (let (bolt, g1) =
                      addV ''bolt''
                        ([(''container'', PInt (container inst)), (''task_id'', PInt (task_id inst)),
                          (''component'', PStr bolt_name),
                          (''stream_manager'', PStr (stmgrId info))]
                         @ tags topology_id topology_ref) g
                in addE_to bolt ''is_within''
                     (is_container topology_id topology_ref (container inst)) g1)))"

definition create_bolt_component ::
  "parser \<Rightarrow> string \<Rightarrow> string \<Rightarrow> physical_plan \<Rightarrow> string \<Rightarrow> step" where
  "create_bolt_component parse topology_id topology_ref pp bolt_name g =
     (case lookup (physical_bolts pp) bolt_name of
        Inl e \<Rightarrow> (Some e, g)
      | Inr names \<Rightarrow>
          for_each (create_bolt_instance parse topology_id topology_ref pp bolt_name) names g)"

definition create_bolts ::
  "parser \<Rightarrow> string \<Rightarrow> string \<Rightarrow> physical_plan \<Rightarrow> logical_plan \<Rightarrow> step" where
  "create_bolts parse topology_id topology_ref pp lp =
     for_each (create_bolt_component parse topology_id topology_ref pp) (map fst (bolts lp))"

subsection \<open>\<^verbatim>\<open>_create_logical_connections\<close>\<close>

text \<open>The traversal of both queries: every vertex of the snapshot with a given
  \<open>component\<close> property, whatever its label.\<close>

definition is_instance_of :: "string \<Rightarrow> string \<Rightarrow> string \<Rightarrow> vertex \<Rightarrow> bool" where
  "is_instance_of topology_id topology_ref name v =
     (has ''topology_id'' (PStr topology_id) v \<and> has ''topology_ref'' (PStr topology_ref) v
      \<and> has ''component'' (PStr name) v)"

definition connect_stream :: "string \<Rightarrow> string \<Rightarrow> nat list \<Rightarrow> incoming_stream \<Rightarrow> graph \<Rightarrow> graph" where
  "connect_stream topology_id topology_ref destination_instances incoming g =
     (let source_instances =
            V_where (is_instance_of topology_id topology_ref (component_name incoming)) g
      in fold (\<lambda>destination.
                 fold (\<lambda>source.
                         addE source ''logically_connected''
                           [(''stream_name'', PStr (stream_name incoming)),
                            (''grouping'', PStr (grouping incoming))] destination)
                   source_instances)
           destination_instances g)"

definition connect_bolt :: "string \<Rightarrow> string \<Rightarrow> string \<times> bolt_data \<Rightarrow> graph \<Rightarrow> graph" where
  "connect_bolt topology_id topology_ref item g =
     (let destination_instances =
            V_where (is_instance_of topology_id topology_ref (fst item)) g
      in fold (connect_stream topology_id topology_ref destination_instances)
           (inputs (snd item)) g)"

definition create_logical_connections :: "string \<Rightarrow> string \<Rightarrow> logical_plan \<Rightarrow> step" where
  "create_logical_connections topology_id topology_ref lp g =
     (None, fold (connect_bolt topology_id topology_ref) (bolts lp) g)"

subsection \<open>\<^verbatim>\<open>_create_physical_connections\<close>\<close>

text \<open>The read query: every (source, destination) pair of handles where the source is a
  bolt or spout of the snapshot and an outgoing \<open>logically_connected\<close> edge leads to the
  destination. The loop body binds the two handles and does nothing else.\<close>

definition logical_pairs :: "string \<Rightarrow> string \<Rightarrow> graph \<Rightarrow> (nat \<times> nat) list" where
  "logical_pairs topology_id topology_ref g =
     concat (map (\<lambda>source.
                    map (\<lambda>e. (source, inV e))
                      (filter (\<lambda>e. elabel e = ''logically_connected'' \<and> outV e = source)
                         (edges g)))
               (V_where (\<lambda>v. has ''topology_id'' (PStr topology_id) v
                            \<and> has ''topology_ref'' (PStr topology_ref) v
                            \<and> (hasLabel ''bolt'' v \<or> hasLabel ''spout'' v)) g))"

definition create_physical_connections ::
  "string \<Rightarrow> string \<Rightarrow> physical_plan \<Rightarrow> logical_plan \<Rightarrow> step" where
  "create_physical_connections topology_id topology_ref pp lp g =
     (None, fold (\<lambda>pair g'. (let source = fst pair; destination = snd pair in g'))
              (logical_pairs topology_id topology_ref g) g)"

subsection \<open>\<^verbatim>\<open>build_topology_graph\<close>\<close>

text \<open>The two tracker calls are parameters: each takes the tracker url, cluster, environ
  and topology id, and returns the plan or the error it raised. \<open>max_str_digits\<close> is the
  setting of the interpreter that runs the builder.\<close>

type_synonym 'p fetch = "string \<Rightarrow> string \<Rightarrow> string \<Rightarrow> string \<Rightarrow> error + 'p"

definition build_steps ::
  "nat \<Rightarrow> parser \<Rightarrow> string \<Rightarrow> string \<Rightarrow> physical_plan \<Rightarrow> logical_plan \<Rightarrow> step" where
  "build_steps max_str_digits parse topology_id topology_ref pp lp =
     and_then (create_stream_managers max_str_digits topology_id topology_ref pp)
       (and_then (create_spouts parse topology_id topology_ref pp lp)
          (and_then (create_bolts parse topology_id topology_ref pp lp)
             (create_logical_connections topology_id topology_ref lp)))"

definition build_topology_graph ::
  "nat \<Rightarrow> parser \<Rightarrow> logical_plan fetch \<Rightarrow> physical_plan fetch \<Rightarrow> string
     \<Rightarrow> string \<Rightarrow> string \<Rightarrow> string \<Rightarrow> string \<Rightarrow> step" where
  "build_topology_graph max_str_digits parse get_logical_plan get_physical_plan tracker_url
       topology_id topology_ref cluster environ g =
     (case get_logical_plan tracker_url cluster environ topology_id of
        Inl e \<Rightarrow> (Some e, g)
      | Inr lp \<Rightarrow>
          (case get_physical_plan tracker_url cluster environ topology_id of
             Inl e \<Rightarrow> (Some e, g)
           | Inr pp \<Rightarrow> build_steps max_str_digits parse topology_id topology_ref pp lp g))"

section \<open>Notions used in the statements\<close>

text \<open>What a step added: the vertices and edges of \<open>g'\<close> beyond those of \<open>g\<close>, and the
  relation that \<open>g'\<close> holds everything of \<open>g\<close> at the same place.\<close>

definition new_vertices :: "graph \<Rightarrow> graph \<Rightarrow> vertex list" where
  "new_vertices g g' = drop (length (vertices g)) (vertices g')"

definition new_edges :: "graph \<Rightarrow> graph \<Rightarrow> edge list" where
  "new_edges g g' = drop (length (edges g)) (edges g')"

definition grows :: "graph \<Rightarrow> graph \<Rightarrow> bool" where
  "grows g g' =
     (take (length (vertices g)) (vertices g') = vertices g
      \<and> take (length (edges g)) (edges g') = edges g)"

text \<open>\<open>g'\<close> is \<open>g\<close> with more vertices, all satisfying \<open>P\<close>, and more edges, all satisfying \<open>Q\<close>.\<close>

definition created :: "(vertex \<Rightarrow> bool) \<Rightarrow> (edge \<Rightarrow> bool) \<Rightarrow> graph \<Rightarrow> graph \<Rightarrow> bool" where
  "created P Q g g' =
     (grows g g' \<and> list_all P (new_vertices g g') \<and> list_all Q (new_edges g g'))"

text \<open>A vertex tagged with a topology id and a snapshot reference, once each; the vertices
  and the edges that a build may create.\<close>

definition tagged :: "string \<Rightarrow> string \<Rightarrow> vertex \<Rightarrow> bool" where
  "tagged topology_id topology_ref v =
     (prop_values ''topology_id'' v = [PStr topology_id]
      \<and> prop_values ''topology_ref'' v = [PStr topology_ref])"

definition build_vertex :: "string \<Rightarrow> string \<Rightarrow> vertex \<Rightarrow> bool" where
  "build_vertex topology_id topology_ref v =
     (tagged topology_id topology_ref v
      \<and> vlabel v \<in> set [''stream_manager'', ''container'', ''spout'', ''bolt''])"

definition build_edge :: "edge \<Rightarrow> bool" where
  "build_edge e =
     (elabel e = ''is_within'' \<and> eprops e = []
      \<or> elabel e = ''logically_connected''
          \<and> map fst (eprops e) = [''stream_name'', ''grouping''])"

text \<open>The vertices and the edge that one iteration of \<open>_create_stream_managers\<close> writes.\<close>

definition sm_vertex :: "string \<Rightarrow> string \<Rightarrow> stream_manager \<Rightarrow> vertex" where
  "sm_vertex topology_id topology_ref sm =
     \<lparr>vlabel = ''stream_manager'',
      vprops = [(''id'', PStr (sm_id sm)), (''host'', host sm), (''port'', port sm),
                (''shell_port'', shell_port sm), (''topology_id'', PStr topology_id),
                (''topology_ref'', PStr topology_ref)]\<rparr>"

definition container_vertex :: "string \<Rightarrow> string \<Rightarrow> int \<Rightarrow> vertex" where
  "container_vertex topology_id topology_ref c =
     \<lparr>vlabel = ''container'',
      vprops = [(''id'', PInt c), (''topology_id'', PStr topology_id),
                (''topology_ref'', PStr topology_ref)]\<rparr>"

definition is_within_edge :: "nat \<Rightarrow> nat \<Rightarrow> edge" where
  "is_within_edge src dst = \<lparr>elabel = ''is_within'', outV = src, inV = dst, eprops = []\<rparr>"

text \<open>The query \<open>V_where\<close> on a plain list.\<close>

definition positions :: "('a \<Rightarrow> bool) \<Rightarrow> 'a list \<Rightarrow> nat list" where
  "positions P xs = filter (\<lambda>i. P (xs ! i)) [0..<length xs]"

definition stmgr_pair :: "string \<Rightarrow> string \<Rightarrow> stream_manager \<times> int \<Rightarrow> vertex list" where
  "stmgr_pair topology_id topology_ref p =
     [sm_vertex topology_id topology_ref (fst p), container_vertex topology_id topology_ref (snd p)]"

text \<open>The handles of the vertices that exist in \<open>g'\<close> and did not in \<open>g\<close>.\<close>

definition created_handles :: "graph \<Rightarrow> graph \<Rightarrow> nat list" where
  "created_handles g g' = [length (vertices g)..<length (vertices g')]"

text \<open>An edge holds a property under the key \<open>k\<close>.\<close>

definition edge_has_key :: "string \<Rightarrow> edge \<Rightarrow> bool" where
  "edge_has_key k e = (k \<in> set (map fst (eprops e)))"

text \<open>The edge of one declared input between two instances; the instances of a component in
  the snapshot, as \<open>_create_logical_connections\<close> queries them; and the edges of one input of
  a bolt, destination by destination.\<close>

definition logical_edge :: "incoming_stream \<Rightarrow> nat \<Rightarrow> nat \<Rightarrow> edge" where
  "logical_edge incoming src dst =
     \<lparr>elabel = ''logically_connected'', outV = src, inV = dst,
      eprops = [(''stream_name'', PStr (stream_name incoming)),
                (''grouping'', PStr (grouping incoming))]\<rparr>"

definition instances_of :: "string \<Rightarrow> string \<Rightarrow> string \<Rightarrow> graph \<Rightarrow> nat list" where
  "instances_of topology_id topology_ref name g =
     V_where (is_instance_of topology_id topology_ref name) g"

definition stream_edges :: "string \<Rightarrow> string \<Rightarrow> graph \<Rightarrow> string \<Rightarrow> incoming_stream \<Rightarrow> edge list" where
  "stream_edges topology_id topology_ref g bolt_name incoming =
     concat (map (\<lambda>dst. map (\<lambda>src. logical_edge incoming src dst)
                          (instances_of topology_id topology_ref (component_name incoming) g))
               (instances_of topology_id topology_ref bolt_name g))"

text \<open>The value of a string of decimal digits.\<close>

definition decimal :: "string \<Rightarrow> nat" where
  "decimal s = foldl (\<lambda>acc c. 10 * acc + digit_value c) 0 s"

text \<open>The vertex written for an instance of a spout and of a bolt.\<close>

definition spout_vertex ::
  "string \<Rightarrow> string \<Rightarrow> string \<Rightarrow> spout_data \<Rightarrow> parsed_instance \<Rightarrow> instance_info \<Rightarrow> vertex" where
  "spout_vertex topology_id topology_ref name sd inst info =
     \<lparr>vlabel = ''spout'',
      vprops = [(''container'', PInt (container inst)), (''task_id'', PInt (task_id inst)),
                (''component'', PStr name), (''stream_manager'', PStr (stmgrId info)),
                (''spout_type'', spout_type sd), (''spout_source'', spout_source sd),
                (''topology_id'', PStr topology_id), (''topology_ref'', PStr topology_ref)]\<rparr>"

definition bolt_vertex ::
  "string \<Rightarrow> string \<Rightarrow> string \<Rightarrow> parsed_instance \<Rightarrow> instance_info \<Rightarrow> vertex" where
  "bolt_vertex topology_id topology_ref name inst info =
     \<lparr>vlabel = ''bolt'',
      vprops = [(''container'', PInt (container inst)), (''task_id'', PInt (task_id inst)),
                (''component'', PStr name), (''stream_manager'', PStr (stmgrId info)),
                (''topology_id'', PStr topology_id), (''topology_ref'', PStr topology_ref)]\<rparr>"

text \<open>The pairs of a component of the logical plan and an instance token that the physical
  plan lists under it, in the order in which the two nested loops visit them.\<close>

definition spout_rows :: "physical_plan \<Rightarrow> logical_plan \<Rightarrow> ((string \<times> spout_data) \<times> string) list" where
  "spout_rows pp lp =
     concat (map (\<lambda>item. map (Pair item)
                     (case map_of (physical_spouts pp) (fst item) of None \<Rightarrow> [] | Some toks \<Rightarrow> toks))
               (spouts lp))"

definition bolt_rows :: "physical_plan \<Rightarrow> logical_plan \<Rightarrow> (string \<times> string) list" where
  "bolt_rows pp lp =
     concat (map (\<lambda>name. map (Pair name)
                     (case map_of (physical_bolts pp) name of None \<Rightarrow> [] | Some toks \<Rightarrow> toks))
               (map fst (bolts lp)))"

text \<open>The number of vertices of a snapshot with a given label.\<close>

definition count_vertices :: "string \<Rightarrow> string \<Rightarrow> string \<Rightarrow> graph \<Rightarrow> nat" where
  "count_vertices l topology_id topology_ref g =
     length (V_where (\<lambda>v. hasLabel l v \<and> has ''topology_id'' (PStr topology_id) v
                          \<and> has ''topology_ref'' (PStr topology_ref) v) g)"

text \<open>An edge that places a stream manager or an instance in a container.\<close>

definition is_within :: "edge \<Rightarrow> bool" where
  "is_within e = (elabel e = ''is_within'')"

text \<open>Two runs in step: from \<open>g0\<close> to \<open>g\<close> and from \<open>h0\<close> to \<open>h\<close> the same vertices were
  created, \<open>h0\<close> holds the vertices of \<open>g0\<close> first, and the second run created as many
  \<open>is_within\<close> edges as the first and at least as many edges in all.\<close>

definition replays :: "graph \<Rightarrow> graph \<Rightarrow> graph \<Rightarrow> graph \<Rightarrow> bool" where
  "replays g0 h0 g h =
     (take (length (vertices g0)) (vertices h0) = vertices g0
      \<and> take (length (vertices g0)) (vertices g) = vertices g0
      \<and> take (length (vertices h0)) (vertices h) = vertices h0
      \<and> new_vertices g0 g = new_vertices h0 h
      \<and> take (length (edges g0)) (edges g) = edges g0
      \<and> take (length (edges h0)) (edges h) = edges h0
      \<and> length (new_edges g0 g) \<le> length (new_edges h0 h)
      \<and> length (filter is_within (new_edges g0 g))
          = length (filter is_within (new_edges h0 h)))"

text \<open>The digits of a literal, read after a digit (\<open>prev\<close>) or at its start: groups of decimal
  digits separated by single underscores; the first group may be empty only after a digit.\<close>

definition digit_groups_from :: "bool \<Rightarrow> string \<Rightarrow> bool" where
  "digit_groups_from prev s =
     (let gs = split CHR ''_'' s
      in (prev \<or> hd gs \<noteq> []) \<and> list_all is_digit (hd gs)
         \<and> list_all (\<lambda>g. g \<noteq> [] \<and> list_all is_digit g) (tl gs))"

text \<open>The integer literals of \<^verbatim>\<open>int(s)\<close>, by their grammar: an optional sign, then one or
  more non-empty groups of decimal digits joined by single underscores, of no more digits
  than the interpreter allows. The value is that of the digits.\<close>

definition digit_groups :: "string \<Rightarrow> bool" where
  "digit_groups s = list_all (\<lambda>g. g \<noteq> [] \<and> list_all is_digit g) (split CHR ''_'' s)"

definition int_literal :: "nat \<Rightarrow> string \<Rightarrow> int option" where
  "int_literal max_str_digits t =
     (let signed = (t \<noteq> [] \<and> (hd t = CHR ''-'' \<or> hd t = CHR ''+''));
          ds = (if signed then tl t else t);
          n = int (decimal (filter is_digit ds))
      in if digit_groups ds \<and> \<not> too_many_digits max_str_digits ds
         then Some (if t \<noteq> [] \<and> hd t = CHR ''-'' then - n else n)
         else None)"

section \<open>A sample topology\<close>

text \<open>The topology used in the evaluated examples: one spout \<open>S1\<close> with two instances and one
  bolt \<open>B1\<close> with one instance, reading stream \<open>default\<close> of \<open>S1\<close> with grouping \<open>shuffle\<close>,
  under the stream manager \<open>stmgr-1\<close> in container 1. \<open>demo_parse\<close> stands for
  \<^verbatim>\<open>parse_instance_name\<close> on the tokens of this topology and rejects any other token.\<close>

definition demo_parse :: parser where
  "demo_parse tok =
     (if tok = ''container_1_S1_1'' then Inr \<lparr>container = 1, task_id = 1\<rparr>
      else if tok = ''container_1_S1_2'' then Inr \<lparr>container = 1, task_id = 2\<rparr>
      else if tok = ''container_1_B1_3'' then Inr \<lparr>container = 1, task_id = 3\<rparr>
      else Inl (ParseError tok))"

definition demo_physical_plan :: physical_plan where
  "demo_physical_plan =
     \<lparr>stmgrs = [(''stmgr-1'', \<lparr>sm_id = ''stmgr-1'', host = PStr ''h'', port = PInt 1, shell_port = PInt 2\<rparr>)],
      physical_spouts = [(''S1'', [''container_1_S1_1'', ''container_1_S1_2''])],
      physical_bolts = [(''B1'', [''container_1_B1_3''])],
      instances = [(''container_1_S1_1'', \<lparr>stmgrId = ''stmgr-1''\<rparr>),
                   (''container_1_S1_2'', \<lparr>stmgrId = ''stmgr-1''\<rparr>),
                   (''container_1_B1_3'', \<lparr>stmgrId = ''stmgr-1''\<rparr>)]\<rparr>"

definition demo_logical_plan :: logical_plan where
  "demo_logical_plan =
     \<lparr>spouts = [(''S1'', \<lparr>spout_type = PStr ''default'', spout_source = PStr ''NA''\<rparr>)],
      bolts = [(''B1'', \<lparr>inputs = [\<lparr>component_name = ''S1'', stream_name = ''default'', grouping = ''shuffle''\<rparr>]\<rparr>)]\<rparr>"

definition demo_get_logical_plan :: "logical_plan fetch" where
  "demo_get_logical_plan tracker_url cluster environ topology_id = Inr demo_logical_plan"

definition demo_get_physical_plan :: "physical_plan fetch" where
  "demo_get_physical_plan tracker_url cluster environ topology_id = Inr demo_physical_plan"

text \<open>Variants of the sample: a stream manager id without separator; a stream manager in
  another container than the instances; a logical spout the physical plan does not list; an
  instance map without the bolt instance; a physical spout the logical plan does not name.\<close>

definition malformed_physical_plan :: physical_plan where
  "malformed_physical_plan =
     demo_physical_plan
       \<lparr>stmgrs := [(''stmgr'', \<lparr>sm_id = ''stmgr'', host = PStr ''host-1'', port = PInt 9000,
                                 shell_port = PInt 9001\<rparr>)]\<rparr>"


definition unlisted_logical_plan :: logical_plan where
  "unlisted_logical_plan =
     demo_logical_plan
       \<lparr>spouts := spouts demo_logical_plan
                     @ [(''S2'', \<lparr>spout_type = PStr ''default'', spout_source = PStr ''NA''\<rparr>)]\<rparr>"

definition unregistered_physical_plan :: physical_plan where
  "unregistered_physical_plan =
     demo_physical_plan
       \<lparr>instances := [(''container_1_S1_1'', \<lparr>stmgrId = ''stmgr-1''\<rparr>),
                      (''container_1_S1_2'', \<lparr>stmgrId = ''stmgr-1''\<rparr>)]\<rparr>"


definition unlisted_get_logical_plan :: "logical_plan fetch" where
  "unlisted_get_logical_plan tracker_url cluster environ topology_id = Inr unlisted_logical_plan"

definition unregistered_get_physical_plan :: "physical_plan fetch" where
  "unregistered_get_physical_plan tracker_url cluster environ topology_id =
     Inr unregistered_physical_plan"

definition stray_physical_plan :: physical_plan where
  "stray_physical_plan =
     demo_physical_plan
       \<lparr>physical_spouts := physical_spouts demo_physical_plan @ [(''S9'', [''container_1_S9_4''])],
        instances := instances demo_physical_plan
                       @ [(''container_1_S9_4'', \<lparr>stmgrId = ''stmgr-1''\<rparr>)]\<rparr>"

definition stray_get_physical_plan :: "physical_plan fetch" where
  "stray_get_physical_plan tracker_url cluster environ topology_id = Inr stray_physical_plan"

text \<open>The digit limit of the interpreter in the evaluated examples: CPython's default.\<close>

definition demo_max_str_digits :: nat where
  "demo_max_str_digits = 4300"

section \<open>Auxiliary lemmas\<close>

lemma take_eq_iff_append: "take (length xs) ys = xs \<longleftrightarrow> (\<exists>zs. ys = xs @ zs)"
proof
  assume "take (length xs) ys = xs"
  then have "ys = xs @ drop (length xs) ys"
    by (metis append_take_drop_id)
  then show "\<exists>zs. ys = xs @ zs" ..
next
  assume "\<exists>zs. ys = xs @ zs"
  then show "take (length xs) ys = xs" by auto
qed

lemma grows_iff:
  "grows g g' \<longleftrightarrow> (\<exists>vs es. vertices g' = vertices g @ vs \<and> edges g' = edges g @ es)"
  by (auto simp: grows_def take_eq_iff_append)

lemma created_iff:
  "created P Q g g' \<longleftrightarrow>
     (\<exists>vs es. vertices g' = vertices g @ vs \<and> edges g' = edges g @ es
        \<and> list_all P vs \<and> list_all Q es)"
  by (auto simp: created_def grows_iff new_vertices_def new_edges_def)

lemma created_refl: "created P Q g g"
  by (simp add: created_iff)

lemma created_trans:
  "created P Q g g' \<Longrightarrow> created P Q g' g'' \<Longrightarrow> created P Q g g''"
  by (auto simp: created_iff)

lemma created_mono:
  "created P Q g g' \<Longrightarrow> (\<And>v. P v \<Longrightarrow> P' v) \<Longrightarrow> (\<And>e. Q e \<Longrightarrow> Q' e) \<Longrightarrow> created P' Q' g g'"
  by (auto simp: created_iff list_all_iff)

lemma created_grows: "created P Q g g' \<Longrightarrow> grows g g'"
  by (simp add: created_def)

lemma created_addV:
  "P \<lparr>vlabel = l, vprops = ps\<rparr> \<Longrightarrow> created P Q g (snd (addV l ps g))"
  by (simp add: created_iff addV_def)

lemma created_addE:
  "Q \<lparr>elabel = l, outV = s, inV = d, eprops = ps\<rparr> \<Longrightarrow> created P Q g (addE s l ps d g)"
  by (simp add: created_iff addE_def)

lemma created_for_each:
  "(\<And>x h. x \<in> set xs \<Longrightarrow> created P Q h (snd (body x h)))
     \<Longrightarrow> created P Q g (snd (for_each body xs g))"
proof (induction xs arbitrary: g)
  case Nil
  show ?case by (simp add: created_refl)
next
  case (Cons x xs)
  have step: "created P Q g (snd (body x g))"
    by (rule Cons.prems) simp
  show ?case
  proof (cases "body x g")
    case (Pair r g1)
    show ?thesis
    proof (cases r)
      case None
      have "created P Q g1 (snd (for_each body xs g1))"
        by (rule Cons.IH) (simp add: Cons.prems)
      with step Pair None show ?thesis
        by (auto intro: created_trans)
    next
      case (Some e)
      with step Pair show ?thesis by simp
    qed
  qed
qed

lemma created_and_then:
  "(\<And>h. created P Q h (snd (s h))) \<Longrightarrow> (\<And>h. created P Q h (snd (t h)))
     \<Longrightarrow> created P Q g (snd (and_then s t g))"
  by (cases "s g") (auto simp: and_then_def split: option.splits intro: created_trans
        dest: meta_spec [of _ g])

lemma created_fold:
  "(\<And>x h. x \<in> set xs \<Longrightarrow> created P Q h (f x h)) \<Longrightarrow> created P Q g (fold f xs g)"
proof (induction xs arbitrary: g)
  case Nil
  show ?case by (simp add: created_refl)
next
  case (Cons x xs)
  have "created P Q g (f x g)" by (rule Cons.prems) simp
  moreover have "created P Q (f x g) (fold f xs (f x g))"
    by (rule Cons.IH) (simp add: Cons.prems)
  ultimately show ?case by (auto intro: created_trans)
qed

lemma created_addE_to:
  "Q \<lparr>elabel = l, outV = s, inV = hd (V_where C g), eprops = []\<rparr>
     \<Longrightarrow> created P Q g (snd (addE_to s l C g))"
  by (auto simp: addE_to_def created_refl split: list.splits intro: created_addE)

lemma created_create_stream_manager:
  "created (build_vertex tid tref) build_edge g (snd (create_stream_manager md tid tref sm g))"
proof -
  let ?P = "build_vertex tid tref"
  let ?ps = "[(''id'', PStr (sm_id sm)), (''host'', host sm), (''port'', port sm),
                (''shell_port'', shell_port sm)] @ tags tid tref"
  let ?g1 = "snd (addV ''stream_manager'' ?ps g)"
  have v1: "created ?P build_edge g ?g1"
    by (rule created_addV) (simp add: build_vertex_def tagged_def prop_values_def tags_def)
  show ?thesis
  proof (cases "container_of_stmgr_id md (sm_id sm)")
    case (Inl e)
    with v1 show ?thesis
      by (simp add: create_stream_manager_def split_beta Let_def)
  next
    case (Inr c)
    let ?g2 = "snd (addV ''container'' ((''id'', PInt c) # tags tid tref) ?g1)"
    have v2: "created ?P build_edge ?g1 ?g2"
      by (rule created_addV) (simp add: build_vertex_def tagged_def prop_values_def tags_def)
    have e: "created ?P build_edge ?g2
               (addE (fst (addV ''stream_manager'' ?ps g)) ''is_within'' []
                  (fst (addV ''container'' ((''id'', PInt c) # tags tid tref) ?g1)) ?g2)"
      by (rule created_addE) (simp add: build_edge_def)
    from v1 v2 e have "created ?P build_edge g
               (addE (fst (addV ''stream_manager'' ?ps g)) ''is_within'' []
                  (fst (addV ''container'' ((''id'', PInt c) # tags tid tref) ?g1)) ?g2)"
      by (blast intro: created_trans)
    with Inr show ?thesis
      by (simp add: create_stream_manager_def split_beta Let_def)
  qed
qed

lemma created_create_stream_managers:
  "created (build_vertex tid tref) build_edge g (snd (create_stream_managers md tid tref pp g))"
  unfolding create_stream_managers_def
  by (rule created_for_each) (rule created_create_stream_manager)

lemma created_create_spout_instance:
  "created (build_vertex tid tref) build_edge g
     (snd (create_spout_instance parse tid tref pp name sd tok g))"
proof (cases "parse tok")
  case (Inl e)
  then show ?thesis by (simp add: create_spout_instance_def created_refl)
next
  case (Inr inst)
  show ?thesis
  proof (cases "lookup (instances pp) tok")
    case (Inl e)
    with Inr show ?thesis by (simp add: create_spout_instance_def created_refl)
  next
    case inf: (Inr info)
    let ?ps = "[(''container'', PInt (container inst)), (''task_id'', PInt (task_id inst)),
                (''component'', PStr name), (''stream_manager'', PStr (stmgrId info)),
                (''spout_type'', spout_type sd), (''spout_source'', spout_source sd)]
               @ tags tid tref"
    let ?g1 = "snd (addV ''spout'' ?ps g)"
    have v: "created (build_vertex tid tref) build_edge g ?g1"
      by (rule created_addV) (simp add: build_vertex_def tagged_def prop_values_def tags_def)
    have e: "created (build_vertex tid tref) build_edge ?g1
               (snd (addE_to (fst (addV ''spout'' ?ps g)) ''is_within''
                      (is_container tid tref (container inst)) ?g1))"
      by (rule created_addE_to) (simp add: build_edge_def)
    from v e Inr inf show ?thesis
      by (simp add: create_spout_instance_def split_beta Let_def) (blast intro: created_trans)
  qed
qed

lemma created_create_bolt_instance:
  "created (build_vertex tid tref) build_edge g
     (snd (create_bolt_instance parse tid tref pp name tok g))"
proof (cases "parse tok")
  case (Inl e)
  then show ?thesis by (simp add: create_bolt_instance_def created_refl)
next
  case (Inr inst)
  show ?thesis
  proof (cases "lookup (instances pp) tok")
    case (Inl e)
    with Inr show ?thesis by (simp add: create_bolt_instance_def created_refl)
  next
    case inf: (Inr info)
    let ?ps = "[(''container'', PInt (container inst)), (''task_id'', PInt (task_id inst)),
                (''component'', PStr name), (''stream_manager'', PStr (stmgrId info))]
               @ tags tid tref"
    let ?g1 = "snd (addV ''bolt'' ?ps g)"
    have v: "created (build_vertex tid tref) build_edge g ?g1"
      by (rule created_addV) (simp add: build_vertex_def tagged_def prop_values_def tags_def)
    have e: "created (build_vertex tid tref) build_edge ?g1
               (snd (addE_to (fst (addV ''bolt'' ?ps g)) ''is_within''
                      (is_container tid tref (container inst)) ?g1))"
      by (rule created_addE_to) (simp add: build_edge_def)
    from v e Inr inf show ?thesis
      by (simp add: create_bolt_instance_def split_beta Let_def) (blast intro: created_trans)
  qed
qed

lemma created_create_spouts:
  "created (build_vertex tid tref) build_edge g (snd (create_spouts parse tid tref pp lp g))"
  unfolding create_spouts_def
proof (rule created_for_each)
  fix x h
  show "created (build_vertex tid tref) build_edge h
          (snd (create_spout_component parse tid tref pp x h))"
    by (cases "lookup (physical_spouts pp) (fst x)")
       (auto simp: create_spout_component_def created_refl
             intro: created_for_each created_create_spout_instance)
qed

lemma created_create_bolts:
  "created (build_vertex tid tref) build_edge g (snd (create_bolts parse tid tref pp lp g))"
  unfolding create_bolts_def
proof (rule created_for_each)
  fix x h
  show "created (build_vertex tid tref) build_edge h
          (snd (create_bolt_component parse tid tref pp x h))"
    by (cases "lookup (physical_bolts pp) x")
       (auto simp: create_bolt_component_def created_refl
             intro: created_for_each created_create_bolt_instance)
qed

lemma created_connect_stream:
  "created P build_edge g (connect_stream tid tref ds inc g)"
  unfolding connect_stream_def Let_def
  by (intro created_fold created_addE) (simp add: build_edge_def)

lemma created_connect_bolt:
  "created P build_edge g (connect_bolt tid tref item g)"
  unfolding connect_bolt_def Let_def
  by (intro created_fold created_connect_stream)

lemma created_create_logical_connections:
  "created P build_edge g (snd (create_logical_connections tid tref lp g))"
  unfolding create_logical_connections_def snd_conv
  by (intro created_fold created_connect_bolt)

lemma created_build_steps:
  "created (build_vertex tid tref) build_edge g (snd (build_steps md parse tid tref pp lp g))"
  unfolding build_steps_def
  by (intro created_and_then created_create_stream_managers created_create_spouts
        created_create_bolts created_create_logical_connections)

lemma created_build_topology_graph:
  "created (build_vertex tid tref) build_edge g
     (snd (build_topology_graph md parse gl gp url tid tref cluster environ g))"
  by (auto simp: build_topology_graph_def created_refl created_build_steps split: sum.splits)

lemma V_where_positions: "V_where P g = positions P (vertices g)"
  by (simp add: V_where_def positions_def)

lemma positions_append:
  "positions P (xs @ ys) = positions P xs @ map (\<lambda>i. length xs + i) (positions P ys)"
proof -
  have upt: "[0..<length xs + length ys]
               = [0..<length xs] @ map (\<lambda>i. length xs + i) [0..<length ys]"
    by (induction ys rule: rev_induct) simp_all
  have left: "filter (\<lambda>i. P ((xs @ ys) ! i)) [0..<length xs]
                = filter (\<lambda>i. P (xs ! i)) [0..<length xs]"
    by (rule filter_cong) (simp_all add: nth_append)
  have right: "filter (\<lambda>i. P ((xs @ ys) ! i)) (map (\<lambda>i. length xs + i) [0..<length ys])
                 = map (\<lambda>i. length xs + i) (filter (\<lambda>i. P (ys ! i)) [0..<length ys])"
    by (simp only: filter_map comp_def nth_append_length_plus)
  show ?thesis
    unfolding positions_def length_append upt filter_append left right ..
qed

lemma positions_Nil: "positions P [] = []"
  by (simp add: positions_def)

lemma positions_single: "positions P [x] = (if P x then [0] else [])"
  by (simp add: positions_def)

lemma length_positions: "length (positions P xs) = length (filter P xs)"
proof (induction xs rule: rev_induct)
  case Nil
  show ?case by (simp add: positions_Nil)
next
  case (snoc x xs)
  then show ?case by (simp add: positions_append positions_single)
qed

lemma set_positions: "set (positions P xs) = {i. i < length xs \<and> P (xs ! i)}"
  by (auto simp: positions_def)

lemma distinct_positions: "distinct (positions P xs)"
  by (simp add: positions_def)

lemma positions_empty_iff: "positions P xs = [] \<longleftrightarrow> (\<forall>x \<in> set xs. \<not> P x)"
  by (auto simp: positions_def filter_empty_conv all_set_conv_all_nth)

lemma positions_append_none:
  "\<forall>y \<in> set ys. \<not> P y \<Longrightarrow> positions P (xs @ ys) = positions P xs"
  by (simp add: positions_append positions_empty_iff [THEN iffD2])

lemma graph_eqI: "vertices a = vertices b \<Longrightarrow> edges a = edges b \<Longrightarrow> (a::graph) = b"
  by simp

lemma create_stream_manager_ok:
  "container_of_stmgr_id md (sm_id sm) = Inr c \<Longrightarrow>
   create_stream_manager md tid tref sm g =
     (None, \<lparr>vertices = vertices g @ [sm_vertex tid tref sm, container_vertex tid tref c],
             edges = edges g @ [is_within_edge (length (vertices g)) (Suc (length (vertices g)))]\<rparr>)"
  by (simp add: create_stream_manager_def addV_def addE_def Let_def tags_def sm_vertex_def
        container_vertex_def is_within_edge_def)

lemma create_stream_manager_fail:
  "container_of_stmgr_id md (sm_id sm) = Inl e \<Longrightarrow>
   create_stream_manager md tid tref sm g =
     (Some e, \<lparr>vertices = vertices g @ [sm_vertex tid tref sm], edges = edges g\<rparr>)"
  by (simp add: create_stream_manager_def addV_def Let_def tags_def sm_vertex_def)

lemma map_upt_shift2:
  "map (\<lambda>i. f (n + 2 * i)) [0..<Suc k] = f n # map (\<lambda>i. f (Suc (Suc n) + 2 * i)) [0..<k]"
proof -
  have "map (\<lambda>i. f (n + 2 * i)) [0..<Suc k]
          = f (n + 2 * 0) # map (\<lambda>i. f (n + 2 * Suc i)) [0..<k]"
    by (rule map_upt_Suc)
  then show ?thesis by simp
qed

lemma for_each_stream_managers_ok:
  "map (\<lambda>sm. container_of_stmgr_id md (sm_id sm)) sms = map Inr cs \<Longrightarrow>
   for_each (create_stream_manager md tid tref) sms g =
     (None, \<lparr>vertices = vertices g @ concat (map (stmgr_pair tid tref) (zip sms cs)),
             edges = edges g @ map (\<lambda>i. is_within_edge (length (vertices g) + 2 * i)
                                          (Suc (length (vertices g) + 2 * i)))
                                 [0..<length sms]\<rparr>)"
proof (induction sms arbitrary: g cs)
  case Nil
  then show ?case by simp
next
  case (Cons sm sms)
  from Cons.prems obtain c cs' where cs: "cs = c # cs'"
    and c: "container_of_stmgr_id md (sm_id sm) = Inr c"
    and rest: "map (\<lambda>sm. container_of_stmgr_id md (sm_id sm)) sms = map Inr cs'"
    by (cases cs) auto
  let ?n = "length (vertices g)"
  let ?g1 = "\<lparr>vertices = vertices g @ [sm_vertex tid tref sm, container_vertex tid tref c],
             edges = edges g @ [is_within_edge ?n (Suc ?n)]\<rparr>"
  let ?E = "\<lambda>j. is_within_edge j (Suc j)"
  have step: "for_each (create_stream_manager md tid tref) (sm # sms) g
          = for_each (create_stream_manager md tid tref) sms ?g1"
    by (simp add: create_stream_manager_ok [OF c])
  have es: "map (\<lambda>i. ?E (?n + 2 * i)) [0..<Suc (length sms)]
              = ?E ?n # map (\<lambda>i. ?E (Suc (Suc ?n) + 2 * i)) [0..<length sms]"
    by (rule map_upt_shift2)
  have vs: "concat (map (stmgr_pair tid tref) (zip (sm # sms) cs))
              = [sm_vertex tid tref sm, container_vertex tid tref c]
                @ concat (map (stmgr_pair tid tref) (zip sms cs'))"
    by (simp add: cs stmgr_pair_def)
  show ?case
    unfolding step Cons.IH [OF rest, of ?g1] vs
    using es by simp
qed

section \<open>Tagging and isolation of snapshots\<close>

lemma created_new:
  "created P Q g g' \<Longrightarrow>
     vertices g' = vertices g @ new_vertices g g' \<and> edges g' = edges g @ new_edges g g'
     \<and> list_all P (new_vertices g g') \<and> list_all Q (new_edges g g')"
  by (auto simp: created_iff new_vertices_def new_edges_def)

lemma build_vertex_has:
  "build_vertex tid tref v \<Longrightarrow>
     has ''topology_id'' (PStr tid) v \<and> has ''topology_ref'' (PStr tref) v"
  by (simp add: build_vertex_def tagged_def has_def)

lemma build_vertex_other_ref:
  "build_vertex tid tref v \<Longrightarrow> other \<noteq> tref \<Longrightarrow> \<not> has ''topology_ref'' (PStr other) v"
  by (simp add: build_vertex_def tagged_def has_def)

lemma build_edge_no_tags:
  "build_edge e \<Longrightarrow> \<not> edge_has_key ''topology_id'' e \<and> \<not> edge_has_key ''topology_ref'' e"
  by (auto simp: build_edge_def edge_has_key_def)

lemma build_edge_label: "build_edge e \<Longrightarrow> elabel e \<noteq> ''physically_connected''"
  by (auto simp: build_edge_def)

text \<open>
  C2, as the source has it. Every vertex that a call of \<open>build_topology_graph\<close> creates
  carries \<open>topology_id\<close> and \<open>topology_ref\<close> with the values passed to the call, whether
  the call completes or fails on the way. The edges do not: an \<open>is_within\<close> edge is created
  without any property and a \<open>logically_connected\<close> edge with \<open>stream_name\<close> and
  \<open>grouping\<close> only, so no created edge has either tagging key.
\<close>

theorem build_tags_vertices_only:
  "grows g (snd (build_topology_graph md parse gl gp url tid tref cluster environ g))
   \<and> list_all (\<lambda>v. has ''topology_id'' (PStr tid) v \<and> has ''topology_ref'' (PStr tref) v)
         (new_vertices g (snd (build_topology_graph md parse gl gp url tid tref cluster environ g)))
   \<and> list_all (\<lambda>e. \<not> edge_has_key ''topology_id'' e \<and> \<not> edge_has_key ''topology_ref'' e)
         (new_edges g (snd (build_topology_graph md parse gl gp url tid tref cluster environ g)))"
proof -
  let ?g' = "snd (build_topology_graph md parse gl gp url tid tref cluster environ g)"
  have c: "created (build_vertex tid tref) build_edge g ?g'"
    by (rule created_build_topology_graph)
  have "list_all (build_vertex tid tref) (new_vertices g ?g')"
    and "list_all build_edge (new_edges g ?g')"
    using created_new [OF c] by simp_all
  then have "list_all (\<lambda>v. has ''topology_id'' (PStr tid) v \<and> has ''topology_ref'' (PStr tref) v)
               (new_vertices g ?g')"
    and "list_all (\<lambda>e. \<not> edge_has_key ''topology_id'' e \<and> \<not> edge_has_key ''topology_ref'' e)
               (new_edges g ?g')"
    by (auto simp: list_all_iff build_vertex_has build_edge_no_tags)
  with created_grows [OF c] show ?thesis by simp
qed

text \<open>
  C2, as the claim states it, fails on the sample topology: the six edges of the build
  carry no \<open>topology_id\<close> and no \<open>topology_ref\<close> property.
\<close>

theorem build_edges_untagged_counterexample:
  "map eprops (edges (snd (build_topology_graph demo_max_str_digits demo_parse demo_get_logical_plan
      demo_get_physical_plan ''tracker'' ''topo'' ''ref-1'' ''cluster'' ''prod'' empty_graph)))
   = [[], [], [], [],
      [(''stream_name'', PStr ''default''), (''grouping'', PStr ''shuffle'')],
      [(''stream_name'', PStr ''default''), (''grouping'', PStr ''shuffle'')]]"
  by code_simp

text \<open>
  C8. Take two builds of the same topology id, one after the other on the same store,
  under two different snapshot references. Every vertex the first creates holds the
  first reference and not the second, every vertex the second creates holds the second
  and not the first; so a query that filters on one reference, whatever else it filters
  on, returns no handle of a vertex created under the other.
\<close>

theorem snapshots_disjoint:
  assumes "ref_a \<noteq> ref_b"
    and "g1 = snd (build_topology_graph md parse gl gp url tid ref_a cluster environ g0)"
    and "g2 = snd (build_topology_graph md parse gl gp url tid ref_b cluster environ g1)"
  shows "list_all (\<lambda>v. has ''topology_ref'' (PStr ref_a) v \<and> \<not> has ''topology_ref'' (PStr ref_b) v)
           (new_vertices g0 g1)
       \<and> list_all (\<lambda>v. has ''topology_ref'' (PStr ref_b) v \<and> \<not> has ''topology_ref'' (PStr ref_a) v)
           (new_vertices g1 g2)
       \<and> set (V_where (\<lambda>v. has ''topology_ref'' (PStr ref_a) v \<and> P v) g2)
           \<inter> set (created_handles g1 g2) = {}
       \<and> set (V_where (\<lambda>v. has ''topology_ref'' (PStr ref_b) v \<and> P v) g2)
           \<inter> set (created_handles g0 g1) = {}"
proof -
  have c1: "created (build_vertex tid ref_a) build_edge g0 g1"
    unfolding assms(2) by (rule created_build_topology_graph)
  have c2: "created (build_vertex tid ref_b) build_edge g1 g2"
    unfolding assms(3) by (rule created_build_topology_graph)
  note n1 = created_new [OF c1] and n2 = created_new [OF c2]
  have a: "list_all (\<lambda>v. has ''topology_ref'' (PStr ref_a) v \<and> \<not> has ''topology_ref'' (PStr ref_b) v)
             (new_vertices g0 g1)"
    using n1 assms(1) by (auto simp: list_all_iff build_vertex_has dest: build_vertex_other_ref)
  have b: "list_all (\<lambda>v. has ''topology_ref'' (PStr ref_b) v \<and> \<not> has ''topology_ref'' (PStr ref_a) v)
             (new_vertices g1 g2)"
    using n2 assms(1) by (auto simp: list_all_iff build_vertex_has dest: build_vertex_other_ref)
  have v1: "vertices g1 = vertices g0 @ new_vertices g0 g1" using n1 by simp
  have v2: "vertices g2 = vertices g1 @ new_vertices g1 g2" using n2 by simp
  have qa: "set (V_where (\<lambda>v. has ''topology_ref'' (PStr ref_a) v \<and> P v) g2)
              \<inter> set (created_handles g1 g2) = {}"
  proof -
    have "\<not> has ''topology_ref'' (PStr ref_a) (vertices g2 ! i)"
      if "length (vertices g1) \<le> i" "i < length (vertices g2)" for i
    proof -
      from that v2 have "vertices g2 ! i = new_vertices g1 g2 ! (i - length (vertices g1))"
        and "i - length (vertices g1) < length (new_vertices g1 g2)"
        by (metis nth_append not_less, metis length_append less_diff_conv2 add.commute)
      with b show ?thesis by (auto simp: list_all_length)
    qed
    then show ?thesis
      by (auto simp: V_where_def created_handles_def)
  qed
  have qb: "set (V_where (\<lambda>v. has ''topology_ref'' (PStr ref_b) v \<and> P v) g2)
              \<inter> set (created_handles g0 g1) = {}"
  proof -
    have "\<not> has ''topology_ref'' (PStr ref_b) (vertices g2 ! i)"
      if "length (vertices g0) \<le> i" "i < length (vertices g1)" for i
    proof -
      from that v2 have "vertices g2 ! i = vertices g1 ! i"
        by (simp add: nth_append)
      moreover from that v1 have "vertices g1 ! i = new_vertices g0 g1 ! (i - length (vertices g0))"
        and "i - length (vertices g0) < length (new_vertices g0 g1)"
        by (metis nth_append not_less, metis length_append less_diff_conv2 add.commute)
      ultimately show ?thesis using a by (auto simp: list_all_length)
    qed
    then show ?thesis
      by (auto simp: V_where_def created_handles_def)
  qed
  from a b qa qb show ?thesis by simp
qed

theorem snapshots_disjoint_witness:
  "list_all (\<lambda>v. has ''topology_ref'' (PStr ''ref-2'') v \<and> \<not> has ''topology_ref'' (PStr ''ref-1'') v)
     (new_vertices
        (snd (build_topology_graph demo_max_str_digits demo_parse demo_get_logical_plan demo_get_physical_plan
                ''tracker'' ''topo'' ''ref-1'' ''cluster'' ''prod'' empty_graph))
        (snd (build_topology_graph demo_max_str_digits demo_parse demo_get_logical_plan demo_get_physical_plan
                ''tracker'' ''topo'' ''ref-2'' ''cluster'' ''prod''
                (snd (build_topology_graph demo_max_str_digits demo_parse demo_get_logical_plan demo_get_physical_plan
                        ''tracker'' ''topo'' ''ref-1'' ''cluster'' ''prod'' empty_graph)))))"
proof -
  have ne: "''ref-1'' \<noteq> ''ref-2''" by simp
  show ?thesis
    using snapshots_disjoint [OF ne refl refl] by simp
qed

section \<open>Physical connections\<close>

text \<open>
  C9. \<open>_create_physical_connections\<close> reads the logically connected pairs and returns
  the graph as it found it, and \<open>build_topology_graph\<close> does not call it: the
  \<open>physically_connected\<close> edges of the store after a build, completed or failed, are the
  ones it held before, and a build on an empty store leaves none.
\<close>

theorem no_physically_connected_edges:
  "create_physical_connections tid tref pp lp g = (None, g)
   \<and> filter (\<lambda>e. elabel e = ''physically_connected'')
        (edges (snd (build_topology_graph md parse gl gp url tid tref cluster environ g)))
     = filter (\<lambda>e. elabel e = ''physically_connected'') (edges g)
   \<and> filter (\<lambda>e. elabel e = ''physically_connected'')
        (edges (snd (build_topology_graph md parse gl gp url tid tref cluster environ empty_graph)))
     = []"
proof -
  have noop: "fold (\<lambda>pair g'. g') xs g = g" for xs :: "(nat \<times> nat) list"
    by (induction xs) simp_all
  have pc: "create_physical_connections tid tref pp lp g = (None, g)"
    by (simp add: create_physical_connections_def Let_def noop)
  have keep: "filter (\<lambda>e. elabel e = ''physically_connected'')
                (edges (snd (build_topology_graph md parse gl gp url tid tref cluster environ h)))
              = filter (\<lambda>e. elabel e = ''physically_connected'') (edges h)" for h
  proof -
    let ?h' = "snd (build_topology_graph md parse gl gp url tid tref cluster environ h)"
    have c: "created (build_vertex tid tref) build_edge h ?h'"
      by (rule created_build_topology_graph)
    from created_new [OF c]
    have es: "edges ?h' = edges h @ new_edges h ?h'"
      and all: "list_all build_edge (new_edges h ?h')"
      by simp_all
    from all have "filter (\<lambda>e. elabel e = ''physically_connected'') (new_edges h ?h') = []"
      by (auto simp: filter_empty_conv list_all_iff dest: build_edge_label)
    then show ?thesis
      by (subst es) simp
  qed
  from pc keep [of g] keep [of empty_graph] show ?thesis
    by (simp add: empty_graph_def)
qed

section \<open>Logical connections\<close>

lemma V_where_cong_vertices: "vertices h = vertices g \<Longrightarrow> V_where P h = V_where P g"
  by (simp add: V_where_def)

lemma fold_appends_edges:
  assumes "\<And>x h. vertices h = vertices g0 \<Longrightarrow> f x h = h\<lparr>edges := edges h @ F x\<rparr>"
    and "vertices g = vertices g0"
  shows "fold f xs g = g\<lparr>edges := edges g @ concat (map F xs)\<rparr>"
  using assms(2)
proof (induction xs arbitrary: g)
  case Nil
  show ?case by simp
next
  case (Cons x xs)
  have step: "f x g = g\<lparr>edges := edges g @ F x\<rparr>"
    by (rule assms(1)) (rule Cons.prems)
  have "fold f xs (f x g) = (f x g)\<lparr>edges := edges (f x g) @ concat (map F xs)\<rparr>"
    by (rule Cons.IH) (simp add: step Cons.prems)
  then show ?case by (simp add: step)
qed

lemma fold_addE:
  "fold (\<lambda>src. addE src l ps dst) xs g
     = g\<lparr>edges := edges g @ map (\<lambda>src. \<lparr>elabel = l, outV = src, inV = dst, eprops = ps\<rparr>) xs\<rparr>"
proof -
  have "fold (\<lambda>src. addE src l ps dst) xs g
          = g\<lparr>edges := edges g
                 @ concat (map (\<lambda>src. [\<lparr>elabel = l, outV = src, inV = dst, eprops = ps\<rparr>]) xs)\<rparr>"
    by (rule fold_appends_edges [where ?g0.0 = g]) (simp_all add: addE_def)
  then show ?thesis by (simp add: concat_map_singleton)
qed

lemma connect_stream_edges:
  assumes "vertices h = vertices g"
  shows "connect_stream tid tref (instances_of tid tref bolt_name g) inc h
           = h\<lparr>edges := edges h @ stream_edges tid tref g bolt_name inc\<rparr>"
proof -
  have src: "V_where (is_instance_of tid tref (component_name inc)) h
               = instances_of tid tref (component_name inc) g"
    by (simp add: instances_of_def V_where_cong_vertices [OF assms])
  have "fold (\<lambda>destination.
                fold (\<lambda>source. addE source ''logically_connected''
                        [(''stream_name'', PStr (stream_name inc)),
                         (''grouping'', PStr (grouping inc))] destination)
                  (instances_of tid tref (component_name inc) g))
          (instances_of tid tref bolt_name g) h
        = h\<lparr>edges := edges h
               @ concat (map (\<lambda>dst. map (\<lambda>src. logical_edge inc src dst)
                                        (instances_of tid tref (component_name inc) g))
                           (instances_of tid tref bolt_name g))\<rparr>"
    by (rule fold_appends_edges [where ?g0.0 = h]) (simp_all add: fold_addE logical_edge_def)
  then show ?thesis
    by (simp add: connect_stream_def src stream_edges_def)
qed

lemma connect_bolt_edges:
  assumes "vertices h = vertices g"
  shows "connect_bolt tid tref item h
           = h\<lparr>edges := edges h
                  @ concat (map (stream_edges tid tref g (fst item)) (inputs (snd item)))\<rparr>"
proof -
  have dst: "V_where (is_instance_of tid tref (fst item)) h = instances_of tid tref (fst item) g"
    by (simp add: instances_of_def V_where_cong_vertices [OF assms])
  have "fold (connect_stream tid tref (instances_of tid tref (fst item) g)) (inputs (snd item)) h
          = h\<lparr>edges := edges h
                 @ concat (map (stream_edges tid tref g (fst item)) (inputs (snd item)))\<rparr>"
  proof (rule fold_appends_edges [where ?g0.0 = h])
    fix x and k :: graph
    assume "vertices k = vertices h"
    then have "vertices k = vertices g" using assms by simp
    then show "connect_stream tid tref (instances_of tid tref (fst item) g) x k
                 = k\<lparr>edges := edges k @ stream_edges tid tref g (fst item) x\<rparr>"
      by (rule connect_stream_edges)
  qed simp
  then show ?thesis
    by (simp add: connect_bolt_def dst)
qed

lemma create_logical_connections_edges:
  "create_logical_connections tid tref lp g =
     (None, g\<lparr>edges := edges g
                @ concat (map (\<lambda>item. concat (map (stream_edges tid tref g (fst item))
                                                  (inputs (snd item))))
                            (bolts lp))\<rparr>)"
proof -
  have "fold (connect_bolt tid tref) (bolts lp) g
          = g\<lparr>edges := edges g
                @ concat (map (\<lambda>item. concat (map (stream_edges tid tref g (fst item))
                                                  (inputs (snd item))))
                            (bolts lp))\<rparr>"
    by (rule fold_appends_edges [where ?g0.0 = g]) (simp_all add: connect_bolt_edges)
  then show ?thesis
    by (simp add: create_logical_connections_def)
qed

lemma stream_edges_pairs:
  "map (\<lambda>e. (inV e, outV e)) (stream_edges tid tref g bolt_name inc)
     = List.product (instances_of tid tref bolt_name g)
         (instances_of tid tref (component_name inc) g)"
proof -
  have "map (\<lambda>e. (inV e, outV e)) (concat (map (\<lambda>dst. map (\<lambda>src. logical_edge inc src dst) ss) ds))
          = List.product ds ss" for ds ss
    by (induction ds) (simp_all add: logical_edge_def comp_def)
  then show ?thesis by (simp add: stream_edges_def)
qed

lemma distinct_instances_of: "distinct (instances_of tid tref name g)"
  by (simp add: instances_of_def V_where_def)

text \<open>
  C1. \<open>_create_logical_connections\<close> leaves the vertices alone and appends, for every
  bolt of the logical plan and every input it declares, in order, the edges of that stream.
  For a bolt name and an input, these are \<open>S * D\<close> edges, where \<open>S\<close> and \<open>D\<close> count the
  vertices of the snapshot whose \<open>component\<close> is the source component and the bolt: one
  edge for each pair of a source and a destination handle, from the source to the
  destination, labelled \<open>logically_connected\<close> and carrying the declared \<open>stream_name\<close>
  and \<open>grouping\<close>.
\<close>

theorem logical_connections_cross_product:
  "create_logical_connections tid tref lp g =
     (None, g\<lparr>edges := edges g
                @ concat (map (\<lambda>item. concat (map (stream_edges tid tref g (fst item))
                                                  (inputs (snd item))))
                            (bolts lp))\<rparr>)
   \<and> length (stream_edges tid tref g bolt_name inc)
       = length (instances_of tid tref (component_name inc) g)
         * length (instances_of tid tref bolt_name g)
   \<and> distinct (map (\<lambda>e. (outV e, inV e)) (stream_edges tid tref g bolt_name inc))
   \<and> set (map (\<lambda>e. (outV e, inV e)) (stream_edges tid tref g bolt_name inc))
       = set (instances_of tid tref (component_name inc) g)
         \<times> set (instances_of tid tref bolt_name g)
   \<and> list_all (\<lambda>e. elabel e = ''logically_connected''
                   \<and> eprops e = [(''stream_name'', PStr (stream_name inc)),
                                 (''grouping'', PStr (grouping inc))])
       (stream_edges tid tref g bolt_name inc)"
proof -
  let ?es = "stream_edges tid tref g bolt_name inc"
  let ?S = "instances_of tid tref (component_name inc) g"
  let ?D = "instances_of tid tref bolt_name g"
  have pairs: "map (\<lambda>e. (inV e, outV e)) ?es = List.product ?D ?S"
    by (rule stream_edges_pairs)
  have swap: "map (\<lambda>e. (outV e, inV e)) ?es = map prod.swap (map (\<lambda>e. (inV e, outV e)) ?es)"
    by (simp add: comp_def)
  have len: "length ?es = length ?S * length ?D"
  proof -
    have "length ?es = length (map (\<lambda>e. (inV e, outV e)) ?es)" by simp
    also have "\<dots> = length ?D * length ?S" unfolding pairs by (rule length_product)
    finally show ?thesis by (simp add: mult.commute)
  qed
  have dist: "distinct (map (\<lambda>e. (outV e, inV e)) ?es)"
    unfolding swap pairs
    by (simp add: distinct_map distinct_product distinct_instances_of inj_on_def)
  have st: "set (map (\<lambda>e. (outV e, inV e)) ?es) = set ?S \<times> set ?D"
    unfolding swap pairs by auto
  have props: "list_all (\<lambda>e. elabel e = ''logically_connected''
                   \<and> eprops e = [(''stream_name'', PStr (stream_name inc)),
                                 (''grouping'', PStr (grouping inc))]) ?es"
    by (auto simp: list_all_iff stream_edges_def logical_edge_def)
  from create_logical_connections_edges len dist st props show ?thesis
    by blast
qed

section \<open>Stream managers and containers\<close>

lemma stmgr_pairs_nth:
  "length xs = length ys \<Longrightarrow> i < length xs \<Longrightarrow>
     concat (map (stmgr_pair tid tref) (zip xs ys)) ! (2 * i) = sm_vertex tid tref (xs ! i)
     \<and> concat (map (stmgr_pair tid tref) (zip xs ys)) ! Suc (2 * i)
         = container_vertex tid tref (ys ! i)"
proof (induction xs arbitrary: ys i)
  case Nil
  then show ?case by simp
next
  case (Cons x xs)
  then obtain y ys' where ys: "ys = y # ys'" by (cases ys) auto
  show ?case
  proof (cases i)
    case 0
    then show ?thesis by (simp add: ys stmgr_pair_def)
  next
    case (Suc j)
    with Cons.prems ys have "length xs = length ys'" "j < length xs" by simp_all
    from Cons.IH [OF this] show ?thesis
      by (simp add: ys Suc stmgr_pair_def)
  qed
qed

lemma stmgr_pairs_length:
  "length xs = length ys \<Longrightarrow> length (concat (map (stmgr_pair tid tref) (zip xs ys))) = 2 * length xs"
  by (induction xs ys rule: list_induct2) (simp_all add: stmgr_pair_def)

lemma stmgr_pairs_filter_sm:
  "length xs = length ys \<Longrightarrow>
     filter (hasLabel ''stream_manager'') (concat (map (stmgr_pair tid tref) (zip xs ys)))
       = map (sm_vertex tid tref) xs"
  by (induction xs ys rule: list_induct2)
     (simp_all add: stmgr_pair_def hasLabel_def sm_vertex_def container_vertex_def)

lemma stmgr_pairs_filter_container:
  "length xs = length ys \<Longrightarrow>
     filter (hasLabel ''container'') (concat (map (stmgr_pair tid tref) (zip xs ys)))
       = map (container_vertex tid tref) ys"
  by (induction xs ys rule: list_induct2)
     (simp_all add: stmgr_pair_def hasLabel_def sm_vertex_def container_vertex_def)

lemma stmgr_pairs_tagged:
  "list_all (tagged tid tref) (concat (map (stmgr_pair tid tref) (zip xs ys)))"
  by (auto simp: list_all_iff stmgr_pair_def tagged_def prop_values_def sm_vertex_def
        container_vertex_def)

text \<open>
  C3. When every stream manager id of the physical plan decodes, \<open>_create_stream_managers\<close>
  completes and creates, for the \<open>B\<close> entries of the stream-manager map in order, \<open>B\<close>
  \<open>stream_manager\<close> vertices and \<open>B\<close> \<open>container\<close> vertices (and no other vertex), all
  tagged with the topology id and reference of the call, and \<open>B\<close> \<open>is_within\<close> edges, the
  \<open>i\<close>-th from the vertex of the \<open>i\<close>-th stream manager to the container vertex whose id is
  the index decoded from that stream manager's id.
\<close>

theorem stream_managers_created:
  assumes "map (\<lambda>sm. container_of_stmgr_id md (sm_id sm)) (map snd (stmgrs pp)) = map Inr cs"
  shows "\<exists>g'. create_stream_managers md tid tref pp g = (None, g')
           \<and> grows g g'
           \<and> new_vertices g g' = concat (map (stmgr_pair tid tref) (zip (map snd (stmgrs pp)) cs))
           \<and> filter (hasLabel ''stream_manager'') (new_vertices g g')
               = map (\<lambda>item. sm_vertex tid tref (snd item)) (stmgrs pp)
           \<and> filter (hasLabel ''container'') (new_vertices g g')
               = map (container_vertex tid tref) cs
           \<and> length (new_vertices g g') = 2 * length (stmgrs pp)
           \<and> length (filter (hasLabel ''stream_manager'') (new_vertices g g')) = length (stmgrs pp)
           \<and> length (filter (hasLabel ''container'') (new_vertices g g')) = length (stmgrs pp)
           \<and> list_all (tagged tid tref) (new_vertices g g')
           \<and> new_edges g g'
               = map (\<lambda>i. is_within_edge (length (vertices g) + 2 * i)
                                        (Suc (length (vertices g) + 2 * i)))
                   [0..<length (stmgrs pp)]
           \<and> length (new_edges g g') = length (stmgrs pp)
           \<and> (\<forall>i < length (stmgrs pp).
                 vertices g' ! outV (new_edges g g' ! i) = sm_vertex tid tref (snd (stmgrs pp ! i))
                 \<and> vertices g' ! inV (new_edges g g' ! i) = container_vertex tid tref (cs ! i)
                 \<and> container_of_stmgr_id md (sm_id (snd (stmgrs pp ! i))) = Inr (cs ! i))"
proof -
  let ?sms = "map snd (stmgrs pp)"
  let ?n = "length (vertices g)"
  let ?vs = "concat (map (stmgr_pair tid tref) (zip ?sms cs))"
  let ?es = "map (\<lambda>i. is_within_edge (?n + 2 * i) (Suc (?n + 2 * i))) [0..<length (stmgrs pp)]"
  let ?g' = "\<lparr>vertices = vertices g @ ?vs, edges = edges g @ ?es\<rparr>"
  have len: "length ?sms = length cs"
    using assms by (metis length_map)
  have run: "create_stream_managers md tid tref pp g = (None, ?g')"
    unfolding create_stream_managers_def
    using for_each_stream_managers_ok [of md ?sms cs tid tref g] assms by simp
  have nv: "new_vertices g ?g' = ?vs" and ne: "new_edges g ?g' = ?es"
    by (simp_all add: new_vertices_def new_edges_def)
  have gr: "grows g ?g'" by (simp add: grows_iff)
  have fsm: "filter (hasLabel ''stream_manager'') ?vs
               = map (\<lambda>item. sm_vertex tid tref (snd item)) (stmgrs pp)"
    using stmgr_pairs_filter_sm [OF len, of tid tref] by (simp add: comp_def)
  have fc: "filter (hasLabel ''container'') ?vs = map (container_vertex tid tref) cs"
    by (rule stmgr_pairs_filter_container [OF len])
  have lv: "length ?vs = 2 * length (stmgrs pp)"
    using stmgr_pairs_length [OF len, of tid tref] by simp
  have ends: "vertices ?g' ! outV (?es ! i) = sm_vertex tid tref (snd (stmgrs pp ! i))
              \<and> vertices ?g' ! inV (?es ! i) = container_vertex tid tref (cs ! i)
              \<and> container_of_stmgr_id md (sm_id (snd (stmgrs pp ! i))) = Inr (cs ! i)"
    if i: "i < length (stmgrs pp)" for i
  proof -
    from i have i': "i < length ?sms" by simp
    have e: "?es ! i = is_within_edge (?n + 2 * i) (Suc (?n + 2 * i))"
      using i by simp
    have o: "(vertices g @ ?vs) ! (?n + 2 * i) = ?vs ! (2 * i)"
      by (simp add: nth_append)
    have d: "(vertices g @ ?vs) ! Suc (?n + 2 * i) = ?vs ! Suc (2 * i)"
      by (simp add: nth_append)
    have dec: "container_of_stmgr_id md (sm_id (snd (stmgrs pp ! i))) = Inr (cs ! i)"
    proof -
      have "map (\<lambda>sm. container_of_stmgr_id md (sm_id sm)) ?sms ! i = map Inr cs ! i"
        using assms by simp
      with i len show ?thesis by simp
    qed
    from stmgr_pairs_nth [OF len i', of tid tref] i dec show ?thesis
      by (simp add: e o d is_within_edge_def)
  qed
  show ?thesis
  proof (intro exI conjI)
    show "create_stream_managers md tid tref pp g = (None, ?g')" by (rule run)
    show "grows g ?g'" by (rule gr)
    show "new_vertices g ?g' = ?vs" by (rule nv)
    show "filter (hasLabel ''stream_manager'') (new_vertices g ?g')
            = map (\<lambda>item. sm_vertex tid tref (snd item)) (stmgrs pp)"
      unfolding nv by (rule fsm)
    show "filter (hasLabel ''container'') (new_vertices g ?g') = map (container_vertex tid tref) cs"
      unfolding nv by (rule fc)
    show "length (new_vertices g ?g') = 2 * length (stmgrs pp)"
      unfolding nv by (rule lv)
    show "length (filter (hasLabel ''stream_manager'') (new_vertices g ?g')) = length (stmgrs pp)"
      unfolding nv fsm by simp
    show "length (filter (hasLabel ''container'') (new_vertices g ?g')) = length (stmgrs pp)"
      unfolding nv fc using len by simp
    show "list_all (tagged tid tref) (new_vertices g ?g')"
      unfolding nv by (rule stmgr_pairs_tagged)
    show "new_edges g ?g' = ?es" using ne by simp
    show "length (new_edges g ?g') = length (stmgrs pp)"
      unfolding ne by simp
    show "\<forall>i < length (stmgrs pp).
            vertices ?g' ! outV (new_edges g ?g' ! i) = sm_vertex tid tref (snd (stmgrs pp ! i))
            \<and> vertices ?g' ! inV (new_edges g ?g' ! i) = container_vertex tid tref (cs ! i)
            \<and> container_of_stmgr_id md (sm_id (snd (stmgrs pp ! i))) = Inr (cs ! i)"
      unfolding ne using ends by blast
  qed
qed

theorem stream_managers_created_witness:
  "create_stream_managers demo_max_str_digits ''topo'' ''ref-1'' demo_physical_plan empty_graph
     = (None, \<lparr>vertices = [sm_vertex ''topo'' ''ref-1'' (snd (hd (stmgrs demo_physical_plan))),
                           container_vertex ''topo'' ''ref-1'' 1],
               edges = [is_within_edge 0 1]\<rparr>)"
proof -
  have h: "map (\<lambda>sm. container_of_stmgr_id demo_max_str_digits (sm_id sm)) (map snd (stmgrs demo_physical_plan))
             = map Inr [1]"
    by code_simp
  from stream_managers_created [OF h, of "''topo''" "''ref-1''" empty_graph]
  obtain g' where run: "create_stream_managers demo_max_str_digits ''topo'' ''ref-1'' demo_physical_plan empty_graph
                          = (None, g')"
    and gr: "grows empty_graph g'"
    and nv: "new_vertices empty_graph g'
               = concat (map (stmgr_pair ''topo'' ''ref-1'')
                           (zip (map snd (stmgrs demo_physical_plan)) [1]))"
    and ne: "new_edges empty_graph g'
               = map (\<lambda>i. is_within_edge (length (vertices empty_graph) + 2 * i)
                                        (Suc (length (vertices empty_graph) + 2 * i)))
                   [0..<length (stmgrs demo_physical_plan)]"
    by blast
  have "vertices g' = [sm_vertex ''topo'' ''ref-1'' (snd (hd (stmgrs demo_physical_plan))),
                       container_vertex ''topo'' ''ref-1'' 1]"
    using nv by (simp add: new_vertices_def empty_graph_def demo_physical_plan_def stmgr_pair_def)
  moreover have "edges g' = [is_within_edge 0 1]"
    using ne by (simp add: new_edges_def empty_graph_def demo_physical_plan_def)
  ultimately show ?thesis using run by simp
qed

section \<open>Decoding the stream manager id\<close>

lemma split_no_sep: "sep \<notin> set s \<Longrightarrow> split sep s = [s]"
  by (induction s) auto

lemma split_at_first:
  "sep \<notin> set a \<Longrightarrow> split sep (a @ sep # r) = a # split sep r"
  by (induction a) auto

lemma split_nonempty: "split sep s \<noteq> []"
  by (induction s) auto

lemma hd_split_prefix: "sep \<notin> set seg \<Longrightarrow> hd (split sep (seg @ sep # r)) = seg"
  by (simp add: split_at_first)

lemma container_no_separator:
  "CHR ''-'' \<notin> set s \<Longrightarrow> container_of_stmgr_id md s = Inl IndexError"
  by (simp add: container_of_stmgr_id_def split_no_sep index1_def)

lemma container_segment_last:
  "CHR ''-'' \<notin> set a \<Longrightarrow> CHR ''-'' \<notin> set seg \<Longrightarrow>
     container_of_stmgr_id md (a @ CHR ''-'' # seg) = py_int md seg"
  by (simp add: container_of_stmgr_id_def split_at_first split_no_sep index1_def)

lemma container_segment_inner:
  "CHR ''-'' \<notin> set a \<Longrightarrow> CHR ''-'' \<notin> set seg \<Longrightarrow>
     container_of_stmgr_id md (a @ CHR ''-'' # seg @ CHR ''-'' # rest) = py_int md seg"
  by (simp add: container_of_stmgr_id_def split_at_first index1_def)

lemma underscore_not_digit: "\<not> is_digit CHR ''_''"
  by (simp add: is_digit_def)

lemma split_Cons_sep: "split sep (sep # cs) = [] # split sep cs"
  by simp

lemma split_Cons_other:
  "c \<noteq> sep \<Longrightarrow> split sep (c # cs) = (c # hd (split sep cs)) # tl (split sep cs)"
  by simp

lemma digit_groups_from_Nil: "digit_groups_from prev [] = prev"
  by (simp add: digit_groups_from_def)

lemma digit_groups_from_underscore:
  "digit_groups_from prev (CHR ''_'' # cs) = (prev \<and> digit_groups_from False cs)"
proof -
  obtain g gs where sp: "split CHR ''_'' cs = g # gs"
    using split_nonempty [of "CHR ''_''" cs] by (cases "split CHR ''_'' cs") auto
  show ?thesis
    by (simp add: digit_groups_from_def sp)
qed

lemma digit_groups_from_digit:
  "is_digit c \<Longrightarrow> digit_groups_from prev (c # cs) = digit_groups_from True cs"
proof -
  assume d: "is_digit c"
  then have ne: "c \<noteq> CHR ''_''" using underscore_not_digit by auto
  obtain g gs where sp: "split CHR ''_'' cs = g # gs"
    using split_nonempty [of "CHR ''_''" cs] by (cases "split CHR ''_'' cs") auto
  show ?thesis
    using d ne by (simp add: digit_groups_from_def sp)
qed

lemma digit_groups_from_other:
  "\<not> is_digit c \<Longrightarrow> c \<noteq> CHR ''_'' \<Longrightarrow> \<not> digit_groups_from prev (c # cs)"
  by (simp add: digit_groups_from_def)

lemma parse_digits_groups:
  "parse_digits prev acc s =
     (if digit_groups_from prev s
      then Some (foldl (\<lambda>acc c. 10 * acc + digit_value c) acc (filter is_digit s))
      else None)"
proof (induction s arbitrary: prev acc)
  case Nil
  show ?case by (simp add: digit_groups_from_Nil)
next
  case (Cons c cs)
  show ?case
  proof (cases "is_digit c")
    case True
    then show ?thesis
      by (simp add: Cons.IH digit_groups_from_digit)
  next
    case False
    show ?thesis
    proof (cases "c = CHR ''_''")
      case True
      then show ?thesis
        using False by (simp add: Cons.IH digit_groups_from_underscore)
    next
      case other: False
      with False show ?thesis
        by (simp add: digit_groups_from_other)
    qed
  qed
qed

lemma digit_groups_from_False: "digit_groups_from False s = digit_groups s"
proof -
  obtain g gs where sp: "split CHR ''_'' s = g # gs"
    using split_nonempty [of "CHR ''_''" s] by (cases "split CHR ''_'' s") auto
  show ?thesis
    by (auto simp: digit_groups_from_def digit_groups_def sp)
qed

lemma py_int_unsigned_literal:
  "py_int_unsigned md ds =
     (if digit_groups ds \<and> \<not> too_many_digits md ds
      then Inr (decimal (filter is_digit ds)) else Inl ValueError)"
  by (simp add: py_int_unsigned_def parse_digits_groups digit_groups_from_False decimal_def)

lemma py_int_literal:
  "py_int md s = (case int_literal md (strip s) of None \<Rightarrow> Inl ValueError | Some n \<Rightarrow> Inr n)"
proof (cases "strip s")
  case Nil
  then show ?thesis
    by (simp add: py_int_def int_literal_def digit_groups_def Let_def)
next
  case (Cons c cs)
  show ?thesis
  proof (cases "c = CHR ''-''")
    case True
    then show ?thesis
      by (simp add: py_int_def Cons int_literal_def py_int_unsigned_literal Let_def)
  next
    case False
    then show ?thesis
      by (simp add: py_int_def Cons int_literal_def py_int_unsigned_literal Let_def)
  qed
qed

lemma digit_not_space: "is_digit c \<Longrightarrow> \<not> py_isspace c"
  by (auto simp: is_digit_def py_isspace_def Let_def)

lemma strip_digits: "list_all is_digit s \<Longrightarrow> strip s = s"
proof -
  assume d: "list_all is_digit s"
  then have a: "dropWhile py_isspace s = s"
    by (cases s) (auto simp: digit_not_space)
  from d have "list_all is_digit (rev s)" by (simp add: list_all_iff)
  then have b: "dropWhile py_isspace (rev s) = rev s"
    by (cases "rev s") (auto simp: digit_not_space)
  show ?thesis by (simp add: strip_def a b)
qed

lemma digit_not_sign: "is_digit c \<Longrightarrow> c \<noteq> CHR ''-'' \<and> c \<noteq> CHR ''+''"
  by (auto simp: is_digit_def Let_def)

lemma digits_are_groups: "s \<noteq> [] \<Longrightarrow> list_all is_digit s \<Longrightarrow> digit_groups s"
proof -
  assume ne: "s \<noteq> []" and d: "list_all is_digit s"
  have "CHR ''_'' \<notin> set s"
    using d underscore_not_digit by (auto simp: list_all_iff)
  then have "split CHR ''_'' s = [s]" by (rule split_no_sep)
  with ne d show ?thesis by (simp add: digit_groups_def)
qed

lemma py_int_digits:
  assumes "s \<noteq> []" and "list_all is_digit s" and "\<not> too_many_digits md s"
  shows "py_int md s = Inr (int (decimal s))"
proof -
  from assms(1,2) obtain c cs where s: "s = c # cs" and c: "is_digit c"
    by (cases s) auto
  have f: "filter is_digit s = s"
    using assms(2) by (simp add: list_all_iff)
  have "hd s \<noteq> CHR ''-''" and "hd s \<noteq> CHR ''+''"
    using digit_not_sign [OF c] s by simp_all
  then have "int_literal md s = Some (int (decimal s))"
    using assms(1,3) digits_are_groups [OF assms(1,2)] by (simp add: int_literal_def f Let_def)
  then show ?thesis
    by (simp add: py_int_literal strip_digits [OF assms(2)])
qed

lemma for_each_append:
  "for_each body (xs @ ys) g =
     (case for_each body xs g of
        (None, h) \<Rightarrow> for_each body ys h
      | (Some e, h) \<Rightarrow> (Some e, h))"
  by (induction xs arbitrary: g) (auto split: prod.splits option.splits)

lemma for_each_stops:
  "for_each body pre g = (None, h) \<Longrightarrow> body x h = (Some e, h')
     \<Longrightarrow> for_each body (pre @ x # post) g = (Some e, h')"
  by (simp add: for_each_append)

lemma for_each_stream_managers_fail:
  assumes "map (\<lambda>sm. container_of_stmgr_id md (sm_id sm)) pre = map Inr cs"
    and "container_of_stmgr_id md (sm_id bad) = Inl e"
  shows "for_each (create_stream_manager md tid tref) (pre @ bad # post) g =
           (Some e,
            \<lparr>vertices = vertices g @ concat (map (stmgr_pair tid tref) (zip pre cs))
                          @ [sm_vertex tid tref bad],
             edges = edges g @ map (\<lambda>i. is_within_edge (length (vertices g) + 2 * i)
                                          (Suc (length (vertices g) + 2 * i)))
                                 [0..<length pre]\<rparr>)"
proof -
  let ?h = "\<lparr>vertices = vertices g @ concat (map (stmgr_pair tid tref) (zip pre cs)),
             edges = edges g @ map (\<lambda>i. is_within_edge (length (vertices g) + 2 * i)
                                          (Suc (length (vertices g) + 2 * i)))
                                 [0..<length pre]\<rparr>"
  have a: "for_each (create_stream_manager md tid tref) pre g = (None, ?h)"
    by (rule for_each_stream_managers_ok [OF assms(1)])
  have b: "create_stream_manager md tid tref bad ?h
             = (Some e, \<lparr>vertices = vertices ?h @ [sm_vertex tid tref bad], edges = edges ?h\<rparr>)"
    by (rule create_stream_manager_fail [OF assms(2)])
  show ?thesis
    using for_each_stops [OF a b, of post] by simp
qed

text \<open>
  C5, as the source has it. The container index of a stream manager is \<^verbatim>\<open>int\<close> of the
  segment of its id between the first separator and the next one (or the end): \<open>stmgr-3\<close>
  gives 3. \<^verbatim>\<open>int\<close> accepts, between blanks, the integer literals (an optional sign, then
  groups of decimal digits joined by single underscores, within the digit limit of the
  interpreter) and returns their value; a segment of decimal digits within the limit gives
  its decimal value. An id without a separator raises \<open>IndexError\<close>, and every segment that
  is no such literal raises \<open>ValueError\<close>. The \<open>stream_manager\<close> vertex is created before
  the id is decoded: when the id of an entry does not decode, the call fails with the
  decoding error, the entries before it have their two vertices and their edge, and the
  failing entry has its \<open>stream_manager\<close> vertex, no container vertex and no edge.
\<close>

theorem stmgr_id_decoding:
  "container_of_stmgr_id md ''stmgr-3'' = Inr 3
   \<and> (CHR ''-'' \<notin> set a \<and> CHR ''-'' \<notin> set seg \<longrightarrow>
        container_of_stmgr_id md (a @ CHR ''-'' # seg) = py_int md seg
        \<and> container_of_stmgr_id md (a @ CHR ''-'' # seg @ CHR ''-'' # rest) = py_int md seg)
   \<and> py_int md t
       = (case int_literal md (strip t) of None \<Rightarrow> Inl ValueError | Some n \<Rightarrow> Inr n)
   \<and> (seg \<noteq> [] \<and> list_all is_digit seg \<and> \<not> too_many_digits md seg \<longrightarrow>
        py_int md seg = Inr (int (decimal seg)))
   \<and> (CHR ''-'' \<notin> set s \<longrightarrow> container_of_stmgr_id md s = Inl IndexError)
   \<and> (map snd (stmgrs pp) = pre @ bad # post
        \<and> map (\<lambda>sm. container_of_stmgr_id md (sm_id sm)) pre = map Inr cs
        \<and> container_of_stmgr_id md (sm_id bad) = Inl e \<longrightarrow>
        create_stream_managers md tid tref pp g =
          (Some e,
           \<lparr>vertices = vertices g @ concat (map (stmgr_pair tid tref) (zip pre cs))
                         @ [sm_vertex tid tref bad],
            edges = edges g @ map (\<lambda>i. is_within_edge (length (vertices g) + 2 * i)
                                         (Suc (length (vertices g) + 2 * i)))
                                [0..<length pre]\<rparr>))"
proof (intro conjI impI)
  have "container_of_stmgr_id md ''stmgr-3'' = py_int md ''3''"
    using container_segment_last [of "''stmgr''" "''3''" md] by simp
  also have "\<dots> = Inr (int (decimal ''3''))"
    by (rule py_int_digits) (simp_all add: is_digit_def too_many_digits_def)
  also have "decimal ''3'' = 3"
    by (simp add: decimal_def digit_value_def)
  finally show "container_of_stmgr_id md ''stmgr-3'' = Inr 3" by simp
next
  assume "CHR ''-'' \<notin> set a \<and> CHR ''-'' \<notin> set seg"
  then show "container_of_stmgr_id md (a @ CHR ''-'' # seg) = py_int md seg"
    by (simp add: container_segment_last)
next
  assume "CHR ''-'' \<notin> set a \<and> CHR ''-'' \<notin> set seg"
  then show "container_of_stmgr_id md (a @ CHR ''-'' # seg @ CHR ''-'' # rest) = py_int md seg"
    by (simp add: container_segment_inner)
next
  show "py_int md t
          = (case int_literal md (strip t) of None \<Rightarrow> Inl ValueError | Some n \<Rightarrow> Inr n)"
    by (rule py_int_literal)
next
  assume "seg \<noteq> [] \<and> list_all is_digit seg \<and> \<not> too_many_digits md seg"
  then show "py_int md seg = Inr (int (decimal seg))"
    by (simp add: py_int_digits)
next
  assume "CHR ''-'' \<notin> set s"
  then show "container_of_stmgr_id md s = Inl IndexError"
    by (rule container_no_separator)
next
  assume h: "map snd (stmgrs pp) = pre @ bad # post
        \<and> map (\<lambda>sm. container_of_stmgr_id md (sm_id sm)) pre = map Inr cs
        \<and> container_of_stmgr_id md (sm_id bad) = Inl e"
  then show "create_stream_managers md tid tref pp g =
          (Some e,
           \<lparr>vertices = vertices g @ concat (map (stmgr_pair tid tref) (zip pre cs))
                         @ [sm_vertex tid tref bad],
            edges = edges g @ map (\<lambda>i. is_within_edge (length (vertices g) + 2 * i)
                                         (Suc (length (vertices g) + 2 * i)))
                                [0..<length pre]\<rparr>)"
    unfolding create_stream_managers_def
    by (simp add: for_each_stream_managers_fail)
qed

theorem stmgr_id_decoding_witness:
  "container_of_stmgr_id demo_max_str_digits ''stmgr-12-x'' = Inr 12
   \<and> container_of_stmgr_id demo_max_str_digits ''stmgr'' = Inl IndexError
   \<and> py_int demo_max_str_digits ''1x'' = Inl ValueError
   \<and> py_int demo_max_str_digits ''1__0'' = Inl ValueError
   \<and> py_int demo_max_str_digits ''+'' = Inl ValueError
   \<and> py_int demo_max_str_digits [char_of (28 :: nat), CHR ''5''] = Inl ValueError
   \<and> py_int demo_max_str_digits '' +1_0 '' = Inr 10
   \<and> create_stream_managers demo_max_str_digits ''topo'' ''ref-1'' malformed_physical_plan
        empty_graph
       = (Some IndexError,
          \<lparr>vertices = [sm_vertex ''topo'' ''ref-1'' (snd (hd (stmgrs malformed_physical_plan)))],
           edges = []\<rparr>)"
proof -
  note th = stmgr_id_decoding [where md = demo_max_str_digits and a = "''stmgr''"
      and seg = "''12''" and rest = "''x''" and s = "''stmgr''"
      and pp = malformed_physical_plan and pre = "[]"
      and bad = "snd (hd (stmgrs malformed_physical_plan))" and post = "[]" and cs = "[]"
      and e = IndexError and tid = "''topo''" and tref = "''ref-1''" and g = empty_graph]
  have h1: "CHR ''-'' \<notin> set ''stmgr'' \<and> CHR ''-'' \<notin> set ''12''" by simp
  have h2: "''12'' \<noteq> [] \<and> list_all is_digit ''12''
            \<and> \<not> too_many_digits demo_max_str_digits ''12''"
    by (simp add: is_digit_def too_many_digits_def)
  have h4: "map snd (stmgrs malformed_physical_plan)
              = [] @ snd (hd (stmgrs malformed_physical_plan)) # []
        \<and> map (\<lambda>sm. container_of_stmgr_id demo_max_str_digits (sm_id sm)) [] = map Inr []
        \<and> container_of_stmgr_id demo_max_str_digits
            (sm_id (snd (hd (stmgrs malformed_physical_plan)))) = Inl IndexError"
    by (simp add: malformed_physical_plan_def container_no_separator)
  have d: "decimal ''12'' = 12" by (simp add: decimal_def digit_value_def)
  have lit: "int_literal demo_max_str_digits (strip ''1x'') = None
        \<and> int_literal demo_max_str_digits (strip ''1__0'') = None
        \<and> int_literal demo_max_str_digits (strip ''+'') = None
        \<and> int_literal demo_max_str_digits (strip [char_of (28 :: nat), CHR ''5'']) = None
        \<and> int_literal demo_max_str_digits (strip '' +1_0 '') = Some 10"
    by code_simp
  from th [where t = "''1x''"] h1 h2 have "container_of_stmgr_id demo_max_str_digits ''stmgr-12-x'' = Inr 12"
    by (simp add: d)
  moreover from th [where t = "''1x''"] h1
  have "container_of_stmgr_id demo_max_str_digits ''stmgr'' = Inl IndexError" by simp
  moreover from th [where t = "''1x''"] lit
  have "py_int demo_max_str_digits ''1x'' = Inl ValueError" by simp
  moreover from th [where t = "''1__0''"] lit
  have "py_int demo_max_str_digits ''1__0'' = Inl ValueError" by simp
  moreover from th [where t = "''+''"] lit
  have "py_int demo_max_str_digits ''+'' = Inl ValueError" by simp
  moreover from th [where t = "[char_of (28 :: nat), CHR ''5'']"] lit
  have "py_int demo_max_str_digits [char_of (28 :: nat), CHR ''5''] = Inl ValueError" by simp
  moreover from th [where t = "'' +1_0 ''"] lit
  have "py_int demo_max_str_digits '' +1_0 '' = Inr 10" by simp
  moreover from th [where t = "''1x''"] h4
  have "create_stream_managers demo_max_str_digits ''topo'' ''ref-1'' malformed_physical_plan
          empty_graph
       = (Some IndexError,
          \<lparr>vertices = [sm_vertex ''topo'' ''ref-1'' (snd (hd (stmgrs malformed_physical_plan)))],
           edges = []\<rparr>)"
    by (simp add: empty_graph_def)
  ultimately show ?thesis by blast
qed

text \<open>
  C5, as the claim states it, fails on a physical plan whose only stream manager has the
  id \<open>stmgr\<close>: the call raises \<open>IndexError\<close>, and the store holds the \<open>stream_manager\<close>
  vertex of that entry.
\<close>

theorem malformed_stmgr_vertex_counterexample:
  "create_stream_managers demo_max_str_digits ''topo'' ''ref-1'' malformed_physical_plan
     empty_graph
     = (Some IndexError,
        \<lparr>vertices =
           [\<lparr>vlabel = ''stream_manager'',
             vprops = [(''id'', PStr ''stmgr''), (''host'', PStr ''host-1''), (''port'', PInt 9000),
                       (''shell_port'', PInt 9001), (''topology_id'', PStr ''topo''),
                       (''topology_ref'', PStr ''ref-1'')]\<rparr>],
         edges = []\<rparr>)"
  by code_simp

section \<open>Errors and partial builds\<close>

lemma V_where_addV_other:
  "\<not> P \<lparr>vlabel = l, vprops = ps\<rparr> \<Longrightarrow> V_where P (snd (addV l ps g)) = V_where P g"
  by (simp add: V_where_positions addV_def positions_append_none)

lemma addV_addE_to:
  assumes "\<not> C \<lparr>vlabel = l, vprops = ps\<rparr>"
  shows "addE_to (fst (addV l ps g)) ''is_within'' C (snd (addV l ps g)) =
           (case V_where C g of
              [] \<Rightarrow> (Some LookupError,
                      \<lparr>vertices = vertices g @ [\<lparr>vlabel = l, vprops = ps\<rparr>], edges = edges g\<rparr>)
            | c # _ \<Rightarrow> (None,
                        \<lparr>vertices = vertices g @ [\<lparr>vlabel = l, vprops = ps\<rparr>],
                         edges = edges g @ [is_within_edge (length (vertices g)) c]\<rparr>))"
proof -
  have q: "V_where C (snd (addV l ps g)) = V_where C g"
    using assms by (simp add: V_where_positions addV_def positions_append_none)
  show ?thesis
    unfolding addE_to_def q
    by (simp add: addV_def addE_def is_within_edge_def split: list.splits)
qed

lemma spout_not_container: "\<not> is_container tid tref c (spout_vertex tid' tref' name sd inst info)"
  by (simp add: is_container_def hasLabel_def spout_vertex_def)

lemma bolt_not_container: "\<not> is_container tid tref c (bolt_vertex tid' tref' name inst info)"
  by (simp add: is_container_def hasLabel_def bolt_vertex_def)

lemma lookup_None: "map_of d k = None \<Longrightarrow> lookup d k = Inl (KeyError k)"
  by (simp add: lookup_def)

lemma lookup_Some: "map_of d k = Some v \<Longrightarrow> lookup d k = Inr v"
  by (simp add: lookup_def)

lemma create_spout_instance_cases:
  "create_spout_instance parse tid tref pp name sd tok g =
     (case parse tok of
        Inl e \<Rightarrow> (Some e, g)
      | Inr inst \<Rightarrow>
          (case map_of (instances pp) tok of
             None \<Rightarrow> (Some (KeyError tok), g)
           | Some info \<Rightarrow>
               (case V_where (is_container tid tref (container inst)) g of
                  [] \<Rightarrow> (Some LookupError,
                          \<lparr>vertices = vertices g @ [spout_vertex tid tref name sd inst info],
                           edges = edges g\<rparr>)
                | c # _ \<Rightarrow> (None,
                            \<lparr>vertices = vertices g @ [spout_vertex tid tref name sd inst info],
                             edges = edges g @ [is_within_edge (length (vertices g)) c]\<rparr>))))"
proof (cases "parse tok")
  case (Inl e)
  then show ?thesis by (simp add: create_spout_instance_def)
next
  case (Inr inst)
  show ?thesis
  proof (cases "map_of (instances pp) tok")
    case None
    with Inr show ?thesis by (simp add: create_spout_instance_def lookup_None)
  next
    case (Some info)
    let ?ps = "[(''container'', PInt (container inst)), (''task_id'', PInt (task_id inst)),
                (''component'', PStr name), (''stream_manager'', PStr (stmgrId info)),
                (''spout_type'', spout_type sd), (''spout_source'', spout_source sd),
                (''topology_id'', PStr tid), (''topology_ref'', PStr tref)]"
    have veq: "\<lparr>vlabel = ''spout'', vprops = ?ps\<rparr> = spout_vertex tid tref name sd inst info"
      by (simp add: spout_vertex_def)
    have nc: "\<not> is_container tid tref (container inst) \<lparr>vlabel = ''spout'', vprops = ?ps\<rparr>"
      by (simp add: is_container_def hasLabel_def)
    note step = addV_addE_to [where C = "is_container tid tref (container inst)"
        and l = "''spout''" and ps = "?ps" and g = g, OF nc, unfolded veq]
    have unf: "create_spout_instance parse tid tref pp name sd tok g
                 = addE_to (fst (addV ''spout'' ?ps g)) ''is_within''
                     (is_container tid tref (container inst)) (snd (addV ''spout'' ?ps g))"
      using Inr Some by (simp add: create_spout_instance_def lookup_Some split_beta tags_def)
    show ?thesis
      unfolding unf step using Inr Some by simp
  qed
qed

lemma create_bolt_instance_cases:
  "create_bolt_instance parse tid tref pp name tok g =
     (case parse tok of
        Inl e \<Rightarrow> (Some e, g)
      | Inr inst \<Rightarrow>
          (case map_of (instances pp) tok of
             None \<Rightarrow> (Some (KeyError tok), g)
           | Some info \<Rightarrow>
               (case V_where (is_container tid tref (container inst)) g of
                  [] \<Rightarrow> (Some LookupError,
                          \<lparr>vertices = vertices g @ [bolt_vertex tid tref name inst info],
                           edges = edges g\<rparr>)
                | c # _ \<Rightarrow> (None,
                            \<lparr>vertices = vertices g @ [bolt_vertex tid tref name inst info],
                             edges = edges g @ [is_within_edge (length (vertices g)) c]\<rparr>))))"
proof (cases "parse tok")
  case (Inl e)
  then show ?thesis by (simp add: create_bolt_instance_def)
next
  case (Inr inst)
  show ?thesis
  proof (cases "map_of (instances pp) tok")
    case None
    with Inr show ?thesis by (simp add: create_bolt_instance_def lookup_None)
  next
    case (Some info)
    let ?ps = "[(''container'', PInt (container inst)), (''task_id'', PInt (task_id inst)),
                (''component'', PStr name), (''stream_manager'', PStr (stmgrId info)),
                (''topology_id'', PStr tid), (''topology_ref'', PStr tref)]"
    have veq: "\<lparr>vlabel = ''bolt'', vprops = ?ps\<rparr> = bolt_vertex tid tref name inst info"
      by (simp add: bolt_vertex_def)
    have nc: "\<not> is_container tid tref (container inst) \<lparr>vlabel = ''bolt'', vprops = ?ps\<rparr>"
      by (simp add: is_container_def hasLabel_def)
    note step = addV_addE_to [where C = "is_container tid tref (container inst)"
        and l = "''bolt''" and ps = "?ps" and g = g, OF nc, unfolded veq]
    have unf: "create_bolt_instance parse tid tref pp name tok g
                 = addE_to (fst (addV ''bolt'' ?ps g)) ''is_within''
                     (is_container tid tref (container inst)) (snd (addV ''bolt'' ?ps g))"
      using Inr Some by (simp add: create_bolt_instance_def lookup_Some split_beta tags_def)
    show ?thesis
      unfolding unf step using Inr Some by simp
  qed
qed


lemma build_steps_unfold:
  "build_steps md parse tid tref pp lp g =
     (case create_stream_managers md tid tref pp g of
        (Some e, g1) \<Rightarrow> (Some e, g1)
      | (None, g1) \<Rightarrow>
          (case create_spouts parse tid tref pp lp g1 of
             (Some e, g2) \<Rightarrow> (Some e, g2)
           | (None, g2) \<Rightarrow>
               (case create_bolts parse tid tref pp lp g2 of
                  (Some e, g3) \<Rightarrow> (Some e, g3)
                | (None, g3) \<Rightarrow> create_logical_connections tid tref lp g3)))"
  by (simp add: build_steps_def and_then_def split: prod.splits option.splits)

lemma grows_build_topology_graph:
  "grows g (snd (build_topology_graph md parse gl gp url tid tref cluster environ g))"
  by (rule created_grows) (rule created_build_topology_graph)



section \<open>Keys missing from the physical plan\<close>

lemma create_spouts_missing_component:
  assumes "spouts lp = pre @ (name, sd) # post"
    and "for_each (create_spout_component parse tid tref pp) pre g = (None, h)"
    and "map_of (physical_spouts pp) name = None"
  shows "create_spouts parse tid tref pp lp g = (Some (KeyError name), h)"
proof -
  have "create_spout_component parse tid tref pp (name, sd) h = (Some (KeyError name), h)"
    by (simp add: create_spout_component_def lookup_None [OF assms(3)])
  from for_each_stops [OF assms(2) this] show ?thesis
    by (simp add: create_spouts_def assms(1))
qed

lemma create_spouts_missing_instance:
  assumes "spouts lp = pre @ (name, sd) # post"
    and "for_each (create_spout_component parse tid tref pp) pre g = (None, h)"
    and "map_of (physical_spouts pp) name = Some (tpre @ tok # tpost)"
    and "for_each (create_spout_instance parse tid tref pp name sd) tpre h = (None, h')"
    and "parse tok = Inr inst" and "map_of (instances pp) tok = None"
  shows "create_spouts parse tid tref pp lp g = (Some (KeyError tok), h')"
proof -
  have "create_spout_instance parse tid tref pp name sd tok h' = (Some (KeyError tok), h')"
    by (simp add: create_spout_instance_cases assms(5,6))
  from for_each_stops [OF assms(4) this]
  have "create_spout_component parse tid tref pp (name, sd) h = (Some (KeyError tok), h')"
    by (simp add: create_spout_component_def lookup_Some [OF assms(3)])
  from for_each_stops [OF assms(2) this] show ?thesis
    by (simp add: create_spouts_def assms(1))
qed

lemma create_bolts_missing_component:
  assumes "map fst (bolts lp) = pre @ name # post"
    and "for_each (create_bolt_component parse tid tref pp) pre g = (None, h)"
    and "map_of (physical_bolts pp) name = None"
  shows "create_bolts parse tid tref pp lp g = (Some (KeyError name), h)"
proof -
  have "create_bolt_component parse tid tref pp name h = (Some (KeyError name), h)"
    by (simp add: create_bolt_component_def lookup_None [OF assms(3)])
  from for_each_stops [OF assms(2) this] show ?thesis
    by (simp add: create_bolts_def assms(1))
qed

lemma create_bolts_missing_instance:
  assumes "map fst (bolts lp) = pre @ name # post"
    and "for_each (create_bolt_component parse tid tref pp) pre g = (None, h)"
    and "map_of (physical_bolts pp) name = Some (tpre @ tok # tpost)"
    and "for_each (create_bolt_instance parse tid tref pp name) tpre h = (None, h')"
    and "parse tok = Inr inst" and "map_of (instances pp) tok = None"
  shows "create_bolts parse tid tref pp lp g = (Some (KeyError tok), h')"
proof -
  have "create_bolt_instance parse tid tref pp name tok h' = (Some (KeyError tok), h')"
    by (simp add: create_bolt_instance_cases assms(5,6))
  from for_each_stops [OF assms(4) this]
  have "create_bolt_component parse tid tref pp name h = (Some (KeyError tok), h')"
    by (simp add: create_bolt_component_def lookup_Some [OF assms(3)])
  from for_each_stops [OF assms(2) this] show ?thesis
    by (simp add: create_bolts_def assms(1))
qed

text \<open>
  C10. The two creation steps iterate over the components of the logical plan and index
  the physical plan with what they find. Once the plans are fetched and the stream managers
  created: when the loop over the spouts reaches a component that the physical plan's
  \<open>spouts\<close> map does not hold, the build fails with \<open>KeyError\<close> of that name; when it
  reaches, under a component, an instance token that decodes and that the \<open>instances\<close> map
  does not hold, the build fails with \<open>KeyError\<close> of that token. The same holds for the
  bolts, once the spouts are created. In each case the store is left as the iterations
  before built it, so no vertex exists for the instance.
\<close>

theorem missing_plan_keys_raise_KeyError:
  assumes "gl url cluster environ tid = Inr lp"
    and "gp url cluster environ tid = Inr pp"
    and "create_stream_managers md tid tref pp g0 = (None, g)"
  shows
   "(spouts lp = pre @ (name, sd) # post
     \<and> for_each (create_spout_component parse tid tref pp) pre g = (None, h)
     \<and> map_of (physical_spouts pp) name = None \<longrightarrow>
      build_topology_graph md parse gl gp url tid tref cluster environ g0
        = (Some (KeyError name), h))
    \<and> (spouts lp = pre @ (name, sd) # post
     \<and> for_each (create_spout_component parse tid tref pp) pre g = (None, h)
     \<and> map_of (physical_spouts pp) name = Some (tpre @ tok # tpost)
     \<and> for_each (create_spout_instance parse tid tref pp name sd) tpre h = (None, h')
     \<and> parse tok = Inr inst \<and> map_of (instances pp) tok = None \<longrightarrow>
      build_topology_graph md parse gl gp url tid tref cluster environ g0
        = (Some (KeyError tok), h'))
    \<and> (create_spouts parse tid tref pp lp g = (None, g2)
     \<and> map fst (bolts lp) = bpre @ bname # bpost
     \<and> for_each (create_bolt_component parse tid tref pp) bpre g2 = (None, h)
     \<and> map_of (physical_bolts pp) bname = None \<longrightarrow>
      build_topology_graph md parse gl gp url tid tref cluster environ g0
        = (Some (KeyError bname), h))
    \<and> (create_spouts parse tid tref pp lp g = (None, g2)
     \<and> map fst (bolts lp) = bpre @ bname # bpost
     \<and> for_each (create_bolt_component parse tid tref pp) bpre g2 = (None, h)
     \<and> map_of (physical_bolts pp) bname = Some (tpre @ tok # tpost)
     \<and> for_each (create_bolt_instance parse tid tref pp bname) tpre h = (None, h')
     \<and> parse tok = Inr inst \<and> map_of (instances pp) tok = None \<longrightarrow>
      build_topology_graph md parse gl gp url tid tref cluster environ g0
        = (Some (KeyError tok), h'))"
proof -
  have build: "build_topology_graph md parse gl gp url tid tref cluster environ g0
                 = (case create_spouts parse tid tref pp lp g of
                      (Some e, g2) \<Rightarrow> (Some e, g2)
                    | (None, g2) \<Rightarrow>
                        (case create_bolts parse tid tref pp lp g2 of
                           (Some e, g3) \<Rightarrow> (Some e, g3)
                         | (None, g3) \<Rightarrow> create_logical_connections tid tref lp g3))"
    by (simp add: build_topology_graph_def build_steps_unfold assms)
  show ?thesis
  proof (intro conjI impI)
    assume "spouts lp = pre @ (name, sd) # post
       \<and> for_each (create_spout_component parse tid tref pp) pre g = (None, h)
       \<and> map_of (physical_spouts pp) name = None"
    then have "create_spouts parse tid tref pp lp g = (Some (KeyError name), h)"
      by (blast intro: create_spouts_missing_component)
    then show "build_topology_graph md parse gl gp url tid tref cluster environ g0
                 = (Some (KeyError name), h)"
      by (simp add: build)
  next
    assume "spouts lp = pre @ (name, sd) # post
       \<and> for_each (create_spout_component parse tid tref pp) pre g = (None, h)
       \<and> map_of (physical_spouts pp) name = Some (tpre @ tok # tpost)
       \<and> for_each (create_spout_instance parse tid tref pp name sd) tpre h = (None, h')
       \<and> parse tok = Inr inst \<and> map_of (instances pp) tok = None"
    then have "create_spouts parse tid tref pp lp g = (Some (KeyError tok), h')"
      by (blast intro: create_spouts_missing_instance)
    then show "build_topology_graph md parse gl gp url tid tref cluster environ g0
                 = (Some (KeyError tok), h')"
      by (simp add: build)
  next
    assume a: "create_spouts parse tid tref pp lp g = (None, g2)
       \<and> map fst (bolts lp) = bpre @ bname # bpost
       \<and> for_each (create_bolt_component parse tid tref pp) bpre g2 = (None, h)
       \<and> map_of (physical_bolts pp) bname = None"
    then have "create_bolts parse tid tref pp lp g2 = (Some (KeyError bname), h)"
      by (blast intro: create_bolts_missing_component)
    with a show "build_topology_graph md parse gl gp url tid tref cluster environ g0
                 = (Some (KeyError bname), h)"
      by (simp add: build)
  next
    assume a: "create_spouts parse tid tref pp lp g = (None, g2)
       \<and> map fst (bolts lp) = bpre @ bname # bpost
       \<and> for_each (create_bolt_component parse tid tref pp) bpre g2 = (None, h)
       \<and> map_of (physical_bolts pp) bname = Some (tpre @ tok # tpost)
       \<and> for_each (create_bolt_instance parse tid tref pp bname) tpre h = (None, h')
       \<and> parse tok = Inr inst \<and> map_of (instances pp) tok = None"
    then have "create_bolts parse tid tref pp lp g2 = (Some (KeyError tok), h')"
      by (blast intro: create_bolts_missing_instance)
    with a show "build_topology_graph md parse gl gp url tid tref cluster environ g0
                 = (Some (KeyError tok), h')"
      by (simp add: build)
  qed
qed

theorem missing_plan_keys_raise_KeyError_witness:
  "fst (build_topology_graph demo_max_str_digits demo_parse unlisted_get_logical_plan demo_get_physical_plan
          ''tracker'' ''topo'' ''ref-1'' ''cluster'' ''prod'' empty_graph)
     = Some (KeyError ''S2'')
   \<and> fst (build_topology_graph demo_max_str_digits demo_parse demo_get_logical_plan unregistered_get_physical_plan
          ''tracker'' ''topo'' ''ref-1'' ''cluster'' ''prod'' empty_graph)
     = Some (KeyError ''container_1_B1_3'')"
proof -
  let ?g = "snd (create_stream_managers demo_max_str_digits ''topo'' ''ref-1'' demo_physical_plan empty_graph)"
  let ?h = "snd (for_each (create_spout_component demo_parse ''topo'' ''ref-1'' demo_physical_plan)
                   (spouts demo_logical_plan) ?g)"
  have a1: "unlisted_get_logical_plan ''tracker'' ''cluster'' ''prod'' ''topo''
              = Inr unlisted_logical_plan"
    and a2: "demo_get_physical_plan ''tracker'' ''cluster'' ''prod'' ''topo''
              = Inr demo_physical_plan"
    and a3: "create_stream_managers demo_max_str_digits ''topo'' ''ref-1'' demo_physical_plan empty_graph = (None, ?g)"
    by code_simp+
  have h1: "spouts unlisted_logical_plan
              = spouts demo_logical_plan
                @ (''S2'', \<lparr>spout_type = PStr ''default'', spout_source = PStr ''NA''\<rparr>) # []
       \<and> for_each (create_spout_component demo_parse ''topo'' ''ref-1'' demo_physical_plan)
           (spouts demo_logical_plan) ?g = (None, ?h)
       \<and> map_of (physical_spouts demo_physical_plan) ''S2'' = None"
    by code_simp
  note th1 = missing_plan_keys_raise_KeyError [where gl = unlisted_get_logical_plan
      and gp = demo_get_physical_plan and url = "''tracker''" and cluster = "''cluster''"
      and environ = "''prod''" and tid = "''topo''" and tref = "''ref-1''"
      and lp = unlisted_logical_plan and pp = demo_physical_plan and ?g0.0 = empty_graph
      and g = ?g and parse = demo_parse and pre = "spouts demo_logical_plan" and name = "''S2''"
      and sd = "\<lparr>spout_type = PStr ''default'', spout_source = PStr ''NA''\<rparr>" and post = "[]"
      and h = ?h, OF a1 a2 a3]
  from th1 h1
  have first: "build_topology_graph demo_max_str_digits demo_parse unlisted_get_logical_plan demo_get_physical_plan
          ''tracker'' ''topo'' ''ref-1'' ''cluster'' ''prod'' empty_graph
        = (Some (KeyError ''S2''), ?h)"
    by blast
  let ?u = "snd (create_stream_managers demo_max_str_digits ''topo'' ''ref-1'' unregistered_physical_plan empty_graph)"
  let ?u2 = "snd (create_spouts demo_parse ''topo'' ''ref-1'' unregistered_physical_plan
                    demo_logical_plan ?u)"
  have b1: "demo_get_logical_plan ''tracker'' ''cluster'' ''prod'' ''topo'' = Inr demo_logical_plan"
    and b2: "unregistered_get_physical_plan ''tracker'' ''cluster'' ''prod'' ''topo''
              = Inr unregistered_physical_plan"
    and b3: "create_stream_managers demo_max_str_digits ''topo'' ''ref-1'' unregistered_physical_plan empty_graph
              = (None, ?u)"
    by code_simp+
  have h2: "create_spouts demo_parse ''topo'' ''ref-1'' unregistered_physical_plan
              demo_logical_plan ?u = (None, ?u2)
       \<and> map fst (bolts demo_logical_plan) = [] @ ''B1'' # []
       \<and> for_each (create_bolt_component demo_parse ''topo'' ''ref-1'' unregistered_physical_plan)
           [] ?u2 = (None, ?u2)
       \<and> map_of (physical_bolts unregistered_physical_plan) ''B1''
           = Some ([] @ ''container_1_B1_3'' # [])
       \<and> for_each (create_bolt_instance demo_parse ''topo'' ''ref-1'' unregistered_physical_plan
                     ''B1'') [] ?u2 = (None, ?u2)
       \<and> demo_parse ''container_1_B1_3'' = Inr \<lparr>container = 1, task_id = 3\<rparr>
       \<and> map_of (instances unregistered_physical_plan) ''container_1_B1_3'' = None"
    by code_simp
  have th2: "create_spouts demo_parse ''topo'' ''ref-1'' unregistered_physical_plan
              demo_logical_plan ?u = (None, ?u2)
       \<and> map fst (bolts demo_logical_plan) = [] @ ''B1'' # []
       \<and> for_each (create_bolt_component demo_parse ''topo'' ''ref-1'' unregistered_physical_plan)
           [] ?u2 = (None, ?u2)
       \<and> map_of (physical_bolts unregistered_physical_plan) ''B1''
           = Some ([] @ ''container_1_B1_3'' # [])
       \<and> for_each (create_bolt_instance demo_parse ''topo'' ''ref-1'' unregistered_physical_plan
                     ''B1'') [] ?u2 = (None, ?u2)
       \<and> demo_parse ''container_1_B1_3'' = Inr \<lparr>container = 1, task_id = 3\<rparr>
       \<and> map_of (instances unregistered_physical_plan) ''container_1_B1_3'' = None
       \<longrightarrow> build_topology_graph demo_max_str_digits demo_parse demo_get_logical_plan unregistered_get_physical_plan
          ''tracker'' ''topo'' ''ref-1'' ''cluster'' ''prod'' empty_graph
        = (Some (KeyError ''container_1_B1_3''), ?u2)"
    using missing_plan_keys_raise_KeyError [where gl = demo_get_logical_plan
      and gp = unregistered_get_physical_plan and url = "''tracker''" and cluster = "''cluster''"
      and environ = "''prod''" and tid = "''topo''" and tref = "''ref-1''"
      and lp = demo_logical_plan and pp = unregistered_physical_plan and ?g0.0 = empty_graph
      and g = ?u, OF b1 b2 b3, where parse = demo_parse
      and ?g2.0 = ?u2 and bpre = "[]" and bname = "''B1''" and bpost = "[]" and h = ?u2
      and tpre = "[]" and tok = "''container_1_B1_3''" and tpost = "[]" and h' = ?u2
      and inst = "\<lparr>container = 1, task_id = 3\<rparr>"]
    by blast
  from th2 h2
  have second: "build_topology_graph demo_max_str_digits demo_parse demo_get_logical_plan unregistered_get_physical_plan
          ''tracker'' ''topo'' ''ref-1'' ''cluster'' ''prod'' empty_graph
        = (Some (KeyError ''container_1_B1_3''), ?u2)"
    by (rule mp)
  from first second show ?thesis by simp
qed

section \<open>Spout and bolt instances\<close>

lemma for_each_map: "for_each body (map f xs) g = for_each (\<lambda>x. body (f x)) xs g"
  by (induction xs arbitrary: g) (simp_all split: prod.splits option.splits)

lemma for_each_nested_success:
  assumes "for_each (\<lambda>x h. case sel x of
                              None \<Rightarrow> (Some (err x), h)
                            | Some ys \<Rightarrow> for_each (inner x) ys h) xs g = (None, g')"
  shows "for_each (\<lambda>p. inner (fst p) (snd p))
           (concat (map (\<lambda>x. map (Pair x) (case sel x of None \<Rightarrow> [] | Some ys \<Rightarrow> ys)) xs)) g
         = (None, g')
       \<and> (\<forall>x \<in> set xs. sel x \<noteq> None)"
  using assms
proof (induction xs arbitrary: g)
  case Nil
  then show ?case by simp
next
  case (Cons x xs)
  let ?outer = "\<lambda>x h. case sel x of
                         None \<Rightarrow> (Some (err x), h)
                       | Some ys \<Rightarrow> for_each (inner x) ys h"
  show ?case
  proof (cases "sel x")
    case None
    with Cons.prems show ?thesis by simp
  next
    case (Some ys)
    obtain r g1 where first: "for_each (inner x) ys g = (r, g1)"
      by (cases "for_each (inner x) ys g")
    with Cons.prems Some have r: "r = None" and rest: "for_each ?outer xs g1 = (None, g')"
      by (auto split: option.splits)
    from Cons.IH [OF rest]
    have tail: "for_each (\<lambda>p. inner (fst p) (snd p))
                  (concat (map (\<lambda>x. map (Pair x) (case sel x of None \<Rightarrow> [] | Some ys \<Rightarrow> ys)) xs)) g1
                = (None, g')"
      and all: "\<forall>x \<in> set xs. sel x \<noteq> None"
      by simp_all
    have head: "for_each (\<lambda>p. inner (fst p) (snd p)) (map (Pair x) ys) g = (None, g1)"
      using first r by (simp add: for_each_map)
    show ?thesis
      using head tail all Some by (simp add: for_each_append)
  qed
qed

lemma for_each_rows:
  assumes step: "\<And>x h h'. I h \<Longrightarrow> body x h = (None, h') \<Longrightarrow>
                   I h' \<and> (\<exists>v e. vertices h' = vertices h @ [v] \<and> edges h' = edges h @ [e]
                                  \<and> R x (length (vertices h)) v e)"
    and "I g" and "for_each body xs g = (None, g')"
  shows "I g' \<and> (\<exists>vs es. vertices g' = vertices g @ vs \<and> edges g' = edges g @ es
                   \<and> length vs = length xs \<and> length es = length xs
                   \<and> (\<forall>k < length xs. R (xs ! k) (length (vertices g) + k) (vs ! k) (es ! k)))"
  using assms(2,3)
proof (induction xs arbitrary: g)
  case Nil
  then show ?case by simp
next
  case (Cons x xs)
  obtain r g1 where first: "body x g = (r, g1)" by (cases "body x g")
  with Cons.prems(2) have r: "r = None" and rest: "for_each body xs g1 = (None, g')"
    by (auto split: option.splits)
  from step [OF Cons.prems(1)] first r obtain v e
    where I1: "I g1" and v: "vertices g1 = vertices g @ [v]" and e: "edges g1 = edges g @ [e]"
      and R0: "R x (length (vertices g)) v e"
    by blast
  from Cons.IH [OF I1 rest] obtain vs es
    where I': "I g'" and vs: "vertices g' = vertices g1 @ vs" and es: "edges g' = edges g1 @ es"
      and lv: "length vs = length xs" and le: "length es = length xs"
      and Rk: "\<forall>k < length xs. R (xs ! k) (length (vertices g1) + k) (vs ! k) (es ! k)"
    by blast
  have all: "R ((x # xs) ! k) (length (vertices g) + k) ((v # vs) ! k) ((e # es) ! k)"
    if "k < length (x # xs)" for k
  proof (cases k)
    case 0
    with R0 show ?thesis by simp
  next
    case (Suc j)
    with that have "j < length xs" by simp
    with Rk have "R (xs ! j) (length (vertices g1) + j) (vs ! j) (es ! j)" by blast
    then show ?thesis by (simp add: Suc v)
  qed
  have "vertices g' = vertices g @ (v # vs) \<and> edges g' = edges g @ (e # es)
        \<and> length (v # vs) = length (x # xs) \<and> length (e # es) = length (x # xs)
        \<and> (\<forall>k < length (x # xs).
              R ((x # xs) ! k) (length (vertices g) + k) ((v # vs) ! k) ((e # es) ! k))"
    using vs es v e lv le all by simp
  with I' show ?case by blast
qed

lemma create_spout_component_alt:
  "create_spout_component parse tid tref pp =
     (\<lambda>x h. case map_of (physical_spouts pp) (fst x) of
               None \<Rightarrow> (Some (KeyError (fst x)), h)
             | Some ys \<Rightarrow> for_each (create_spout_instance parse tid tref pp (fst x) (snd x)) ys h)"
  by (intro ext) (simp add: create_spout_component_def lookup_def split: option.splits)

lemma create_bolt_component_alt:
  "create_bolt_component parse tid tref pp =
     (\<lambda>x h. case map_of (physical_bolts pp) x of
               None \<Rightarrow> (Some (KeyError x), h)
             | Some ys \<Rightarrow> for_each (create_bolt_instance parse tid tref pp x) ys h)"
  by (intro ext) (simp add: create_bolt_component_def lookup_def split: option.splits)

lemma create_spouts_flat:
  assumes "create_spouts parse tid tref pp lp g = (None, g')"
  shows "for_each (\<lambda>p. create_spout_instance parse tid tref pp (fst (fst p)) (snd (fst p)) (snd p))
           (spout_rows pp lp) g = (None, g')
         \<and> (\<forall>item \<in> set (spouts lp). map_of (physical_spouts pp) (fst item) \<noteq> None)"
  using for_each_nested_success
    [where sel = "\<lambda>x. map_of (physical_spouts pp) (fst x)" and err = "\<lambda>x. KeyError (fst x)"
       and inner = "\<lambda>x. create_spout_instance parse tid tref pp (fst x) (snd x)"
       and xs = "spouts lp" and g = g and g' = g']
    assms
  by (simp add: create_spouts_def create_spout_component_alt spout_rows_def)

lemma create_bolts_flat:
  assumes "create_bolts parse tid tref pp lp g = (None, g')"
  shows "for_each (\<lambda>p. create_bolt_instance parse tid tref pp (fst p) (snd p))
           (bolt_rows pp lp) g = (None, g')
         \<and> (\<forall>name \<in> set (map fst (bolts lp)). map_of (physical_bolts pp) name \<noteq> None)"
  using for_each_nested_success
    [where sel = "\<lambda>x. map_of (physical_bolts pp) x" and err = "\<lambda>x. KeyError x"
       and inner = "\<lambda>x. create_bolt_instance parse tid tref pp x"
       and xs = "map fst (bolts lp)" and g = g and g' = g']
    assms
  by (simp add: create_bolts_def create_bolt_component_alt bolt_rows_def)

lemma V_where_snoc_other:
  "\<not> P v \<Longrightarrow> vertices h' = vertices h @ [v] \<Longrightarrow> V_where P h' = V_where P h"
  by (simp add: V_where_positions positions_append_none)

lemma instance_step:
  assumes inv: "\<forall>c. V_where (is_container tid tref c) h = V_where (is_container tid tref c) g0"
    and run: "(case parse tok of
                 Inl e \<Rightarrow> (Some e, h)
               | Inr inst \<Rightarrow>
                   (case map_of (instances pp) tok of
                      None \<Rightarrow> (Some (KeyError tok), h)
                    | Some info \<Rightarrow>
                        (case V_where (is_container tid tref (container inst)) h of
                           [] \<Rightarrow> (Some LookupError,
                                   \<lparr>vertices = vertices h @ [mk inst info], edges = edges h\<rparr>)
                         | c # _ \<Rightarrow> (None,
                                     \<lparr>vertices = vertices h @ [mk inst info],
                                      edges = edges h @ [is_within_edge (length (vertices h)) c]\<rparr>))))
               = (None, h')"
    and mk: "\<And>inst info c. \<not> is_container tid tref c (mk inst info)"
  shows "(\<forall>c. V_where (is_container tid tref c) h' = V_where (is_container tid tref c) g0)
         \<and> (\<exists>v e. vertices h' = vertices h @ [v] \<and> edges h' = edges h @ [e]
               \<and> (\<exists>inst info c. parse tok = Inr inst \<and> map_of (instances pp) tok = Some info
                     \<and> V_where (is_container tid tref (container inst)) g0 \<noteq> []
                     \<and> c = hd (V_where (is_container tid tref (container inst)) g0)
                     \<and> v = mk inst info \<and> e = is_within_edge (length (vertices h)) c))"
proof -
  from run obtain inst info c rest
    where p: "parse tok = Inr inst" and i: "map_of (instances pp) tok = Some info"
      and q: "V_where (is_container tid tref (container inst)) h = c # rest"
      and h': "h' = \<lparr>vertices = vertices h @ [mk inst info],
                     edges = edges h @ [is_within_edge (length (vertices h)) c]\<rparr>"
    by (auto split: sum.splits option.splits list.splits)
  have keep: "V_where (is_container tid tref d) h' = V_where (is_container tid tref d) g0" for d
  proof -
    have "V_where (is_container tid tref d) h' = V_where (is_container tid tref d) h"
      by (rule V_where_snoc_other [where v = "mk inst info"]) (simp_all add: mk h')
    with inv show ?thesis by simp
  qed
  from inv q have q0: "V_where (is_container tid tref (container inst)) g0 = c # rest" by simp
  have "vertices h' = vertices h @ [mk inst info]
        \<and> edges h' = edges h @ [is_within_edge (length (vertices h)) c]
        \<and> parse tok = Inr inst \<and> map_of (instances pp) tok = Some info
        \<and> V_where (is_container tid tref (container inst)) g0 \<noteq> []
        \<and> c = hd (V_where (is_container tid tref (container inst)) g0)"
    using p i q0 h' by simp
  with keep show ?thesis by blast
qed

lemma V_where_hd_is:
  "V_where P g \<noteq> [] \<Longrightarrow> hd (V_where P g) < length (vertices g) \<and> P (vertices g ! hd (V_where P g))"
proof -
  assume "V_where P g \<noteq> []"
  then have "hd (V_where P g) \<in> set (V_where P g)" by simp
  then show ?thesis by (simp add: V_where_def)
qed

lemma created_rows:
  assumes rows: "vertices g' = vertices g @ vs" "edges g' = edges g @ es"
    "length vs = n" "length es = n"
  shows "grows g g' \<and> length (new_vertices g g') = n \<and> length (new_edges g g') = n
         \<and> new_vertices g g' = vs \<and> new_edges g g' = es"
  using assms by (simp add: grows_iff new_vertices_def new_edges_def)

lemma create_spouts_rows:
  assumes "create_spouts parse tid tref pp lp g = (None, g')"
  shows "\<exists>vs es. vertices g' = vertices g @ vs \<and> edges g' = edges g @ es
           \<and> length vs = length (spout_rows pp lp) \<and> length es = length (spout_rows pp lp)
           \<and> (\<forall>k < length (spout_rows pp lp). \<exists>inst info c.
                 parse (snd (spout_rows pp lp ! k)) = Inr inst
                 \<and> map_of (instances pp) (snd (spout_rows pp lp ! k)) = Some info
                 \<and> V_where (is_container tid tref (container inst)) g \<noteq> []
                 \<and> c = hd (V_where (is_container tid tref (container inst)) g)
                 \<and> vs ! k = spout_vertex tid tref (fst (fst (spout_rows pp lp ! k)))
                              (snd (fst (spout_rows pp lp ! k))) inst info
                 \<and> es ! k = is_within_edge (length (vertices g) + k) c)"
proof -
  let ?I = "\<lambda>h. \<forall>c. V_where (is_container tid tref c) h = V_where (is_container tid tref c) g"
  let ?R = "\<lambda>x n v e. \<exists>inst info c.
              parse (snd x) = Inr inst \<and> map_of (instances pp) (snd x) = Some info
              \<and> V_where (is_container tid tref (container inst)) g \<noteq> []
              \<and> c = hd (V_where (is_container tid tref (container inst)) g)
              \<and> v = spout_vertex tid tref (fst (fst x)) (snd (fst x)) inst info
              \<and> e = is_within_edge n c"
  let ?body = "\<lambda>p. create_spout_instance parse tid tref pp (fst (fst p)) (snd (fst p)) (snd p)"
  have flat: "for_each ?body (spout_rows pp lp) g = (None, g')"
    using create_spouts_flat [OF assms] by simp
  have step: "?I h' \<and> (\<exists>v e. vertices h' = vertices h @ [v] \<and> edges h' = edges h @ [e]
                          \<and> ?R x (length (vertices h)) v e)"
    if "?I h" and "?body x h = (None, h')" for x h h'
    using instance_step [where mk = "spout_vertex tid tref (fst (fst x)) (snd (fst x))"
        and tid = tid and tref = tref and h = h and ?g0.0 = g and parse = parse
        and tok = "snd x" and pp = pp and h' = h', OF that(1)]
      that(2) spout_not_container
    unfolding create_spout_instance_cases
    by blast
  from for_each_rows [where I = ?I and R = ?R and body = ?body, OF step _ flat]
  show ?thesis by blast
qed

lemma create_bolts_rows:
  assumes "create_bolts parse tid tref pp lp g = (None, g')"
  shows "\<exists>vs es. vertices g' = vertices g @ vs \<and> edges g' = edges g @ es
           \<and> length vs = length (bolt_rows pp lp) \<and> length es = length (bolt_rows pp lp)
           \<and> (\<forall>k < length (bolt_rows pp lp). \<exists>inst info c.
                 parse (snd (bolt_rows pp lp ! k)) = Inr inst
                 \<and> map_of (instances pp) (snd (bolt_rows pp lp ! k)) = Some info
                 \<and> V_where (is_container tid tref (container inst)) g \<noteq> []
                 \<and> c = hd (V_where (is_container tid tref (container inst)) g)
                 \<and> vs ! k = bolt_vertex tid tref (fst (bolt_rows pp lp ! k)) inst info
                 \<and> es ! k = is_within_edge (length (vertices g) + k) c)"
proof -
  let ?I = "\<lambda>h. \<forall>c. V_where (is_container tid tref c) h = V_where (is_container tid tref c) g"
  let ?R = "\<lambda>x n v e. \<exists>inst info c.
              parse (snd x) = Inr inst \<and> map_of (instances pp) (snd x) = Some info
              \<and> V_where (is_container tid tref (container inst)) g \<noteq> []
              \<and> c = hd (V_where (is_container tid tref (container inst)) g)
              \<and> v = bolt_vertex tid tref (fst x) inst info
              \<and> e = is_within_edge n c"
  let ?body = "\<lambda>p. create_bolt_instance parse tid tref pp (fst p) (snd p)"
  have flat: "for_each ?body (bolt_rows pp lp) g = (None, g')"
    using create_bolts_flat [OF assms] by simp
  have step: "?I h' \<and> (\<exists>v e. vertices h' = vertices h @ [v] \<and> edges h' = edges h @ [e]
                          \<and> ?R x (length (vertices h)) v e)"
    if "?I h" and "?body x h = (None, h')" for x h h'
    using instance_step [where mk = "bolt_vertex tid tref (fst x)"
        and tid = tid and tref = tref and h = h and ?g0.0 = g and parse = parse
        and tok = "snd x" and pp = pp and h' = h', OF that(1)]
      that(2) bolt_not_container
    unfolding create_bolt_instance_cases
    by blast
  from for_each_rows [where I = ?I and R = ?R and body = ?body, OF step _ flat]
  show ?thesis by blast
qed

text \<open>
  C4, as the source has it. The instances that get a vertex are those the physical plan
  lists under a component of the logical plan, one vertex for each listed token in loop
  order. When \<open>_create_spouts\<close> completes, the \<open>k\<close>-th such token decodes, is a key of the
  instance map, and the \<open>k\<close>-th vertex created is its \<open>spout\<close> vertex, with the decoded
  \<open>container\<close> and \<open>task_id\<close> and the \<open>stream_manager\<close> of the instance map; the \<open>k\<close>-th edge
  created is the \<open>is_within\<close> edge from that vertex to the first container vertex of the
  snapshot whose \<open>id\<close> is the decoded container index; nothing else is created. The same
  holds for \<open>_create_bolts\<close> and \<open>bolt\<close> vertices.
\<close>

theorem instances_created:
  "(create_spouts parse tid tref pp lp g = (None, g') \<longrightarrow>
      grows g g'
      \<and> length (new_vertices g g') = length (spout_rows pp lp)
      \<and> length (new_edges g g') = length (spout_rows pp lp)
      \<and> (\<forall>k < length (spout_rows pp lp). \<exists>inst info.
            parse (snd (spout_rows pp lp ! k)) = Inr inst
            \<and> map_of (instances pp) (snd (spout_rows pp lp ! k)) = Some info
            \<and> new_vertices g g' ! k
                = spout_vertex tid tref (fst (fst (spout_rows pp lp ! k)))
                    (snd (fst (spout_rows pp lp ! k))) inst info
            \<and> V_where (is_container tid tref (container inst)) g \<noteq> []
            \<and> new_edges g g' ! k
                = is_within_edge (length (vertices g) + k)
                    (hd (V_where (is_container tid tref (container inst)) g))
            \<and> is_container tid tref (container inst)
                (vertices g ! hd (V_where (is_container tid tref (container inst)) g))))
   \<and> (create_bolts parse tid tref pp lp g = (None, g') \<longrightarrow>
      grows g g'
      \<and> length (new_vertices g g') = length (bolt_rows pp lp)
      \<and> length (new_edges g g') = length (bolt_rows pp lp)
      \<and> (\<forall>k < length (bolt_rows pp lp). \<exists>inst info.
            parse (snd (bolt_rows pp lp ! k)) = Inr inst
            \<and> map_of (instances pp) (snd (bolt_rows pp lp ! k)) = Some info
            \<and> new_vertices g g' ! k
                = bolt_vertex tid tref (fst (bolt_rows pp lp ! k)) inst info
            \<and> V_where (is_container tid tref (container inst)) g \<noteq> []
            \<and> new_edges g g' ! k
                = is_within_edge (length (vertices g) + k)
                    (hd (V_where (is_container tid tref (container inst)) g))
            \<and> is_container tid tref (container inst)
                (vertices g ! hd (V_where (is_container tid tref (container inst)) g))))"
proof (intro conjI impI)
  assume run: "create_spouts parse tid tref pp lp g = (None, g')"
  from create_spouts_rows [OF run] obtain vs es
    where v: "vertices g' = vertices g @ vs" and e: "edges g' = edges g @ es"
      and lv: "length vs = length (spout_rows pp lp)" and le: "length es = length (spout_rows pp lp)"
      and rows: "\<forall>k < length (spout_rows pp lp). \<exists>inst info c.
                 parse (snd (spout_rows pp lp ! k)) = Inr inst
                 \<and> map_of (instances pp) (snd (spout_rows pp lp ! k)) = Some info
                 \<and> V_where (is_container tid tref (container inst)) g \<noteq> []
                 \<and> c = hd (V_where (is_container tid tref (container inst)) g)
                 \<and> vs ! k = spout_vertex tid tref (fst (fst (spout_rows pp lp ! k)))
                              (snd (fst (spout_rows pp lp ! k))) inst info
                 \<and> es ! k = is_within_edge (length (vertices g) + k) c"
    by blast
  note cr = created_rows [OF v e lv le]
  from cr show "grows g g'" by blast
  from cr show "length (new_vertices g g') = length (spout_rows pp lp)" by blast
  from cr show "length (new_edges g g') = length (spout_rows pp lp)" by blast
  from cr have nv: "new_vertices g g' = vs" and ne: "new_edges g g' = es" by blast+
  show "\<forall>k < length (spout_rows pp lp). \<exists>inst info.
            parse (snd (spout_rows pp lp ! k)) = Inr inst
            \<and> map_of (instances pp) (snd (spout_rows pp lp ! k)) = Some info
            \<and> new_vertices g g' ! k
                = spout_vertex tid tref (fst (fst (spout_rows pp lp ! k)))
                    (snd (fst (spout_rows pp lp ! k))) inst info
            \<and> V_where (is_container tid tref (container inst)) g \<noteq> []
            \<and> new_edges g g' ! k
                = is_within_edge (length (vertices g) + k)
                    (hd (V_where (is_container tid tref (container inst)) g))
            \<and> is_container tid tref (container inst)
                (vertices g ! hd (V_where (is_container tid tref (container inst)) g))"
    unfolding nv ne using rows V_where_hd_is by blast
next
  assume run: "create_bolts parse tid tref pp lp g = (None, g')"
  from create_bolts_rows [OF run] obtain vs es
    where v: "vertices g' = vertices g @ vs" and e: "edges g' = edges g @ es"
      and lv: "length vs = length (bolt_rows pp lp)" and le: "length es = length (bolt_rows pp lp)"
      and rows: "\<forall>k < length (bolt_rows pp lp). \<exists>inst info c.
                 parse (snd (bolt_rows pp lp ! k)) = Inr inst
                 \<and> map_of (instances pp) (snd (bolt_rows pp lp ! k)) = Some info
                 \<and> V_where (is_container tid tref (container inst)) g \<noteq> []
                 \<and> c = hd (V_where (is_container tid tref (container inst)) g)
                 \<and> vs ! k = bolt_vertex tid tref (fst (bolt_rows pp lp ! k)) inst info
                 \<and> es ! k = is_within_edge (length (vertices g) + k) c"
    by blast
  note cr = created_rows [OF v e lv le]
  from cr show "grows g g'" by blast
  from cr show "length (new_vertices g g') = length (bolt_rows pp lp)" by blast
  from cr show "length (new_edges g g') = length (bolt_rows pp lp)" by blast
  from cr have nv: "new_vertices g g' = vs" and ne: "new_edges g g' = es" by blast+
  show "\<forall>k < length (bolt_rows pp lp). \<exists>inst info.
            parse (snd (bolt_rows pp lp ! k)) = Inr inst
            \<and> map_of (instances pp) (snd (bolt_rows pp lp ! k)) = Some info
            \<and> new_vertices g g' ! k
                = bolt_vertex tid tref (fst (bolt_rows pp lp ! k)) inst info
            \<and> V_where (is_container tid tref (container inst)) g \<noteq> []
            \<and> new_edges g g' ! k
                = is_within_edge (length (vertices g) + k)
                    (hd (V_where (is_container tid tref (container inst)) g))
            \<and> is_container tid tref (container inst)
                (vertices g ! hd (V_where (is_container tid tref (container inst)) g))"
    unfolding nv ne using rows V_where_hd_is by blast
qed

theorem instances_created_witness:
  "create_spouts demo_parse ''topo'' ''ref-1'' demo_physical_plan demo_logical_plan
     (snd (create_stream_managers demo_max_str_digits ''topo'' ''ref-1'' demo_physical_plan empty_graph))
   = (None,
      snd (create_spouts demo_parse ''topo'' ''ref-1'' demo_physical_plan demo_logical_plan
             (snd (create_stream_managers demo_max_str_digits ''topo'' ''ref-1'' demo_physical_plan empty_graph))))
   \<and> length (new_vertices
        (snd (create_stream_managers demo_max_str_digits ''topo'' ''ref-1'' demo_physical_plan empty_graph))
        (snd (create_spouts demo_parse ''topo'' ''ref-1'' demo_physical_plan demo_logical_plan
                (snd (create_stream_managers demo_max_str_digits ''topo'' ''ref-1'' demo_physical_plan empty_graph)))))
      = 2
   \<and> length (new_edges
        (snd (create_stream_managers demo_max_str_digits ''topo'' ''ref-1'' demo_physical_plan empty_graph))
        (snd (create_spouts demo_parse ''topo'' ''ref-1'' demo_physical_plan demo_logical_plan
                (snd (create_stream_managers demo_max_str_digits ''topo'' ''ref-1'' demo_physical_plan empty_graph)))))
      = 2"
proof -
  let ?g1 = "snd (create_stream_managers demo_max_str_digits ''topo'' ''ref-1'' demo_physical_plan empty_graph)"
  let ?g2 = "snd (create_spouts demo_parse ''topo'' ''ref-1'' demo_physical_plan
                    demo_logical_plan ?g1)"
  have run: "create_spouts demo_parse ''topo'' ''ref-1'' demo_physical_plan demo_logical_plan ?g1
               = (None, ?g2)"
    by code_simp
  have rows: "length (spout_rows demo_physical_plan demo_logical_plan) = 2"
    by code_simp
  from instances_created [of demo_parse "''topo''" "''ref-1''" demo_physical_plan
      demo_logical_plan ?g1 ?g2] run
  have "length (new_vertices ?g1 ?g2) = length (spout_rows demo_physical_plan demo_logical_plan)
        \<and> length (new_edges ?g1 ?g2) = length (spout_rows demo_physical_plan demo_logical_plan)"
    by blast
  with run rows show ?thesis by simp
qed

text \<open>
  C4, as the claim states it, fails on a physical plan that lists, under a spout component
  \<open>S9\<close> that the logical plan does not name, the instance \<open>container_1_S9_4\<close>: the build
  completes, and the five vertices it creates belong to the stream manager, its container
  and the components \<open>S1\<close> and \<open>B1\<close>; the instance of \<open>S9\<close> has no vertex.
\<close>

theorem unnamed_component_counterexample:
  "map_of (physical_spouts stray_physical_plan) ''S9'' = Some [''container_1_S9_4'']
   \<and> map_of (instances stray_physical_plan) ''container_1_S9_4'' = Some \<lparr>stmgrId = ''stmgr-1''\<rparr>
   \<and> fst (build_topology_graph demo_max_str_digits demo_parse demo_get_logical_plan stray_get_physical_plan
            ''tracker'' ''topo'' ''ref-1'' ''cluster'' ''prod'' empty_graph) = None
   \<and> map (prop_values ''component'')
        (vertices (snd (build_topology_graph demo_max_str_digits demo_parse demo_get_logical_plan
            stray_get_physical_plan ''tracker'' ''topo'' ''ref-1'' ''cluster'' ''prod''
            empty_graph)))
      = [[], [], [PStr ''S1''], [PStr ''S1''], [PStr ''B1'']]"
  by code_simp

section \<open>Running a build twice\<close>

lemma replays_iff:
  "replays g0 h0 g h \<longleftrightarrow>
     (\<exists>ws vs es fs. vertices h0 = vertices g0 @ ws \<and> vertices g = vertices g0 @ vs
        \<and> vertices h = vertices h0 @ vs
        \<and> edges g = edges g0 @ es \<and> edges h = edges h0 @ fs
        \<and> length es \<le> length fs
        \<and> length (filter is_within es) = length (filter is_within fs))"
proof
  assume r: "replays g0 h0 g h"
  then obtain ws vs vs' es fs where a: "vertices h0 = vertices g0 @ ws"
    and b: "vertices g = vertices g0 @ vs" and c: "vertices h = vertices h0 @ vs'"
    and d: "edges g = edges g0 @ es" and e: "edges h = edges h0 @ fs"
    unfolding replays_def take_eq_iff_append by blast
  from r b c have "vs = vs'" by (simp add: replays_def new_vertices_def)
  moreover from r d e have "length es \<le> length fs"
    and "length (filter is_within es) = length (filter is_within fs)"
    by (simp_all add: replays_def new_edges_def)
  ultimately show "\<exists>ws vs es fs. vertices h0 = vertices g0 @ ws \<and> vertices g = vertices g0 @ vs
        \<and> vertices h = vertices h0 @ vs
        \<and> edges g = edges g0 @ es \<and> edges h = edges h0 @ fs
        \<and> length es \<le> length fs
        \<and> length (filter is_within es) = length (filter is_within fs)"
    using a b c d e by blast
next
  assume "\<exists>ws vs es fs. vertices h0 = vertices g0 @ ws \<and> vertices g = vertices g0 @ vs
        \<and> vertices h = vertices h0 @ vs
        \<and> edges g = edges g0 @ es \<and> edges h = edges h0 @ fs
        \<and> length es \<le> length fs
        \<and> length (filter is_within es) = length (filter is_within fs)"
  then show "replays g0 h0 g h"
    by (auto simp: replays_def new_vertices_def new_edges_def)
qed

lemma replays_start: "grows g0 h0 \<Longrightarrow> replays g0 h0 g0 h0"
proof -
  assume "grows g0 h0"
  then obtain ws where "vertices h0 = vertices g0 @ ws" by (auto simp: grows_iff)
  then have "vertices h0 = vertices g0 @ ws \<and> vertices g0 = vertices g0 @ []
        \<and> vertices h0 = vertices h0 @ []
        \<and> edges g0 = edges g0 @ [] \<and> edges h0 = edges h0 @ []
        \<and> length ([] :: edge list) \<le> length ([] :: edge list)
        \<and> length (filter is_within []) = length (filter is_within [])"
    by simp
  then show ?thesis unfolding replays_iff by blast
qed

lemma replays_step:
  assumes "replays g0 h0 g h"
    and "vertices g' = vertices g @ us" and "vertices h' = vertices h @ us"
    and "edges g' = edges g @ es'" and "edges h' = edges h @ fs'"
    and "length es' \<le> length fs'"
    and "length (filter is_within es') = length (filter is_within fs')"
  shows "replays g0 h0 g' h'"
proof -
  from assms(1) obtain ws vs es fs where "vertices h0 = vertices g0 @ ws"
    "vertices g = vertices g0 @ vs" "vertices h = vertices h0 @ vs"
    "edges g = edges g0 @ es" "edges h = edges h0 @ fs" "length es \<le> length fs"
    "length (filter is_within es) = length (filter is_within fs)"
    unfolding replays_iff by blast
  with assms(2-7) have "vertices h0 = vertices g0 @ ws \<and> vertices g' = vertices g0 @ (vs @ us)
        \<and> vertices h' = vertices h0 @ (vs @ us)
        \<and> edges g' = edges g0 @ (es @ es') \<and> edges h' = edges h0 @ (fs @ fs')
        \<and> length (es @ es') \<le> length (fs @ fs')
        \<and> length (filter is_within (es @ es')) = length (filter is_within (fs @ fs'))"
    by simp
  then show ?thesis unfolding replays_iff by blast
qed

lemma replays_subset: "replays g0 h0 g h \<Longrightarrow> set (vertices g) \<subseteq> set (vertices h)"
  by (auto simp: replays_iff)

lemma replays_filter_le:
  "replays g0 h0 g h \<Longrightarrow> length (filter P (vertices g)) \<le> length (filter P (vertices h))"
  by (auto simp: replays_iff)

lemma V_where_nonempty_iff: "V_where P g \<noteq> [] \<longleftrightarrow> (\<exists>v \<in> set (vertices g). P v)"
  by (simp add: V_where_positions positions_empty_iff)

lemma replays_V_where:
  "replays g0 h0 g h \<Longrightarrow> V_where P g \<noteq> [] \<Longrightarrow> V_where P h \<noteq> []"
  using replays_subset [of g0 h0 g h] by (auto simp: V_where_nonempty_iff)

lemma sim_for_each:
  assumes step: "\<And>x g h g'. R g h \<Longrightarrow> body x g = (None, g')
                   \<Longrightarrow> \<exists>h'. body x h = (None, h') \<and> R g' h'"
    and "R g h" and "for_each body xs g = (None, g')"
  shows "\<exists>h'. for_each body xs h = (None, h') \<and> R g' h'"
  using assms(2,3)
proof (induction xs arbitrary: g h)
  case Nil
  then show ?case by simp
next
  case (Cons x xs)
  obtain r g1 where first: "body x g = (r, g1)" by (cases "body x g")
  with Cons.prems(2) have r: "r = None" and rest: "for_each body xs g1 = (None, g')"
    by (auto split: option.splits)
  from step [OF Cons.prems(1)] first r obtain h1 where h1: "body x h = (None, h1)" and R1: "R g1 h1"
    by blast
  from Cons.IH [OF R1 rest] obtain h' where "for_each body xs h1 = (None, h')" "R g' h'"
    by blast
  with h1 show ?case by simp
qed

lemma sim_create_stream_manager:
  assumes "replays g0 h0 g h" and "create_stream_manager md tid tref sm g = (None, g')"
  shows "\<exists>h'. create_stream_manager md tid tref sm h = (None, h') \<and> replays g0 h0 g' h'"
proof (cases "container_of_stmgr_id md (sm_id sm)")
  case (Inl e)
  from create_stream_manager_fail [OF Inl, of tid tref g] assms(2) show ?thesis by simp
next
  case (Inr c)
  let ?us = "[sm_vertex tid tref sm, container_vertex tid tref c]"
  let ?h' = "\<lparr>vertices = vertices h @ ?us,
              edges = edges h @ [is_within_edge (length (vertices h)) (Suc (length (vertices h)))]\<rparr>"
  have g': "g' = \<lparr>vertices = vertices g @ ?us,
              edges = edges g @ [is_within_edge (length (vertices g)) (Suc (length (vertices g)))]\<rparr>"
    using create_stream_manager_ok [OF Inr, of tid tref g] assms(2) by simp
  have "replays g0 h0 g' ?h'"
    by (rule replays_step [OF assms(1), where us = ?us
          and es' = "[is_within_edge (length (vertices g)) (Suc (length (vertices g)))]"
          and fs' = "[is_within_edge (length (vertices h)) (Suc (length (vertices h)))]"])
       (simp_all add: g' is_within_def is_within_edge_def)
  with create_stream_manager_ok [OF Inr, of tid tref h] show ?thesis by blast
qed

lemma sim_instance_shape:
  assumes "replays g0 h0 g h"
    and "(case parse tok of
            Inl e \<Rightarrow> (Some e, g)
          | Inr inst \<Rightarrow>
              (case map_of (instances pp) tok of
                 None \<Rightarrow> (Some (KeyError tok), g)
               | Some info \<Rightarrow>
                   (case V_where (is_container tid tref (container inst)) g of
                      [] \<Rightarrow> (Some LookupError,
                              \<lparr>vertices = vertices g @ [mk inst info], edges = edges g\<rparr>)
                    | c # _ \<Rightarrow> (None,
                                \<lparr>vertices = vertices g @ [mk inst info],
                                 edges = edges g @ [is_within_edge (length (vertices g)) c]\<rparr>))))
          = (None, g')"
  shows "\<exists>h'. (case parse tok of
            Inl e \<Rightarrow> (Some e, h)
          | Inr inst \<Rightarrow>
              (case map_of (instances pp) tok of
                 None \<Rightarrow> (Some (KeyError tok), h)
               | Some info \<Rightarrow>
                   (case V_where (is_container tid tref (container inst)) h of
                      [] \<Rightarrow> (Some LookupError,
                              \<lparr>vertices = vertices h @ [mk inst info], edges = edges h\<rparr>)
                    | c # _ \<Rightarrow> (None,
                                \<lparr>vertices = vertices h @ [mk inst info],
                                 edges = edges h @ [is_within_edge (length (vertices h)) c]\<rparr>))))
          = (None, h') \<and> replays g0 h0 g' h'"
proof -
  from assms(2) obtain inst info c rest
    where p: "parse tok = Inr inst" and i: "map_of (instances pp) tok = Some info"
      and q: "V_where (is_container tid tref (container inst)) g = c # rest"
      and g': "g' = \<lparr>vertices = vertices g @ [mk inst info],
                     edges = edges g @ [is_within_edge (length (vertices g)) c]\<rparr>"
    by (auto split: sum.splits option.splits list.splits)
  from q have "V_where (is_container tid tref (container inst)) g \<noteq> []" by simp
  from replays_V_where [OF assms(1) this] obtain d rest'
    where qh: "V_where (is_container tid tref (container inst)) h = d # rest'"
    by (cases "V_where (is_container tid tref (container inst)) h") auto
  let ?h' = "\<lparr>vertices = vertices h @ [mk inst info],
              edges = edges h @ [is_within_edge (length (vertices h)) d]\<rparr>"
  have "replays g0 h0 g' ?h'"
    by (rule replays_step [OF assms(1), where us = "[mk inst info]"
          and es' = "[is_within_edge (length (vertices g)) c]"
          and fs' = "[is_within_edge (length (vertices h)) d]"])
       (simp_all add: g' is_within_def is_within_edge_def)
  then show ?thesis using p i qh by simp
qed

lemma sim_create_spout_instance:
  assumes "replays g0 h0 g h"
    and "create_spout_instance parse tid tref pp name sd tok g = (None, g')"
  shows "\<exists>h'. create_spout_instance parse tid tref pp name sd tok h = (None, h')
               \<and> replays g0 h0 g' h'"
  using sim_instance_shape [where mk = "spout_vertex tid tref name sd", OF assms(1)] assms(2)
  unfolding create_spout_instance_cases by blast

lemma sim_create_bolt_instance:
  assumes "replays g0 h0 g h"
    and "create_bolt_instance parse tid tref pp name tok g = (None, g')"
  shows "\<exists>h'. create_bolt_instance parse tid tref pp name tok h = (None, h')
               \<and> replays g0 h0 g' h'"
  using sim_instance_shape [where mk = "bolt_vertex tid tref name", OF assms(1)] assms(2)
  unfolding create_bolt_instance_cases by blast

lemma sim_create_stream_managers:
  assumes "replays g0 h0 g h" and "create_stream_managers md tid tref pp g = (None, g')"
  shows "\<exists>h'. create_stream_managers md tid tref pp h = (None, h') \<and> replays g0 h0 g' h'"
proof -
  have run: "for_each (create_stream_manager md tid tref) (map snd (stmgrs pp)) g = (None, g')"
    using assms(2) by (simp add: create_stream_managers_def)
  from sim_for_each [where R = "replays g0 h0", OF sim_create_stream_manager assms(1) run]
  show ?thesis by (simp add: create_stream_managers_def)
qed

lemma sim_create_spout_component:
  assumes "replays g0 h0 g h"
    and "create_spout_component parse tid tref pp item g = (None, g')"
  shows "\<exists>h'. create_spout_component parse tid tref pp item h = (None, h')
               \<and> replays g0 h0 g' h'"
proof (cases "map_of (physical_spouts pp) (fst item)")
  case None
  with assms(2) show ?thesis by (simp add: create_spout_component_alt)
next
  case (Some ys)
  with assms(2)
  have "for_each (create_spout_instance parse tid tref pp (fst item) (snd item)) ys g = (None, g')"
    by (simp add: create_spout_component_alt)
  from sim_for_each [where R = "replays g0 h0", OF sim_create_spout_instance assms(1) this]
  show ?thesis using Some by (simp add: create_spout_component_alt)
qed

lemma sim_create_bolt_component:
  assumes "replays g0 h0 g h"
    and "create_bolt_component parse tid tref pp name g = (None, g')"
  shows "\<exists>h'. create_bolt_component parse tid tref pp name h = (None, h')
               \<and> replays g0 h0 g' h'"
proof (cases "map_of (physical_bolts pp) name")
  case None
  with assms(2) show ?thesis by (simp add: create_bolt_component_alt)
next
  case (Some ys)
  with assms(2)
  have "for_each (create_bolt_instance parse tid tref pp name) ys g = (None, g')"
    by (simp add: create_bolt_component_alt)
  from sim_for_each [where R = "replays g0 h0", OF sim_create_bolt_instance assms(1) this]
  show ?thesis using Some by (simp add: create_bolt_component_alt)
qed

lemma sim_create_spouts:
  assumes "replays g0 h0 g h" and "create_spouts parse tid tref pp lp g = (None, g')"
  shows "\<exists>h'. create_spouts parse tid tref pp lp h = (None, h') \<and> replays g0 h0 g' h'"
proof -
  have run: "for_each (create_spout_component parse tid tref pp) (spouts lp) g = (None, g')"
    using assms(2) by (simp add: create_spouts_def)
  from sim_for_each [where R = "replays g0 h0", OF sim_create_spout_component assms(1) run]
  show ?thesis by (simp add: create_spouts_def)
qed

lemma sim_create_bolts:
  assumes "replays g0 h0 g h" and "create_bolts parse tid tref pp lp g = (None, g')"
  shows "\<exists>h'. create_bolts parse tid tref pp lp h = (None, h') \<and> replays g0 h0 g' h'"
proof -
  have run: "for_each (create_bolt_component parse tid tref pp) (map fst (bolts lp)) g = (None, g')"
    using assms(2) by (simp add: create_bolts_def)
  from sim_for_each [where R = "replays g0 h0", OF sim_create_bolt_component assms(1) run]
  show ?thesis by (simp add: create_bolts_def)
qed

lemma length_concat_le:
  "(\<And>x. x \<in> set xs \<Longrightarrow> length (f x) \<le> length (f' x))
     \<Longrightarrow> length (concat (map f xs)) \<le> length (concat (map f' xs))"
proof (induction xs)
  case Nil
  show ?case by simp
next
  case (Cons x xs)
  have "length (f x) \<le> length (f' x)" by (rule Cons.prems) simp
  moreover have "length (concat (map f xs)) \<le> length (concat (map f' xs))"
    by (rule Cons.IH) (simp add: Cons.prems)
  ultimately show ?case by simp
qed

lemma length_stream_edges:
  "length (stream_edges tid tref g bolt_name inc)
     = length (instances_of tid tref bolt_name g)
       * length (instances_of tid tref (component_name inc) g)"
proof -
  have "length (concat (map (\<lambda>dst. map (\<lambda>src. logical_edge inc src dst) ss) ds))
          = length ds * length ss" for ds ss :: "nat list"
    by (induction ds) simp_all
  then show ?thesis by (simp add: stream_edges_def)
qed

lemma length_instances_of:
  "length (instances_of tid tref name g)
     = length (filter (is_instance_of tid tref name) (vertices g))"
  by (simp add: instances_of_def V_where_positions length_positions)

lemma sim_create_logical_connections:
  assumes "replays g0 h0 g h" and "create_logical_connections tid tref lp g = (None, g')"
  shows "\<exists>h'. create_logical_connections tid tref lp h = (None, h') \<and> replays g0 h0 g' h'"
proof -
  let ?E = "\<lambda>k. concat (map (\<lambda>item. concat (map (stream_edges tid tref k (fst item))
                                              (inputs (snd item)))) (bolts lp))"
  have g': "g' = g\<lparr>edges := edges g @ ?E g\<rparr>"
    using assms(2) by (simp add: create_logical_connections_edges)
  have le1: "length (stream_edges tid tref g b inc) \<le> length (stream_edges tid tref h b inc)"
    for b inc
    unfolding length_stream_edges length_instances_of
    by (intro mult_le_mono replays_filter_le [OF assms(1)])
  have le: "length (?E g) \<le> length (?E h)"
    by (intro length_concat_le le1)
  have nw: "filter is_within (?E k) = []" for k
    by (auto simp: filter_empty_conv stream_edges_def logical_edge_def is_within_def)
  have "replays g0 h0 g' (h\<lparr>edges := edges h @ ?E h\<rparr>)"
    by (rule replays_step [OF assms(1), where us = "[]" and es' = "?E g" and fs' = "?E h"])
       (simp_all add: g' le nw)
  then show ?thesis
    by (simp add: create_logical_connections_edges)
qed

lemma build_steps_success:
  "build_steps md parse tid tref pp lp g = (None, g') \<longleftrightarrow>
     (\<exists>ga gb gc. create_stream_managers md tid tref pp g = (None, ga)
        \<and> create_spouts parse tid tref pp lp ga = (None, gb)
        \<and> create_bolts parse tid tref pp lp gb = (None, gc)
        \<and> create_logical_connections tid tref lp gc = (None, g'))"
  by (auto simp: build_steps_unfold split: prod.splits option.splits)

lemma sim_build_steps:
  assumes "replays g0 h0 g h" and "build_steps md parse tid tref pp lp g = (None, g')"
  shows "\<exists>h'. build_steps md parse tid tref pp lp h = (None, h') \<and> replays g0 h0 g' h'"
proof -
  from assms(2) obtain ga gb gc
    where a: "create_stream_managers md tid tref pp g = (None, ga)"
      and b: "create_spouts parse tid tref pp lp ga = (None, gb)"
      and c: "create_bolts parse tid tref pp lp gb = (None, gc)"
      and d: "create_logical_connections tid tref lp gc = (None, g')"
    unfolding build_steps_success by blast
  from sim_create_stream_managers [OF assms(1) a] obtain ha
    where a': "create_stream_managers md tid tref pp h = (None, ha)" and ra: "replays g0 h0 ga ha"
    by blast
  from sim_create_spouts [OF ra b] obtain hb
    where b': "create_spouts parse tid tref pp lp ha = (None, hb)" and rb: "replays g0 h0 gb hb"
    by blast
  from sim_create_bolts [OF rb c] obtain hc
    where c': "create_bolts parse tid tref pp lp hb = (None, hc)" and rc: "replays g0 h0 gc hc"
    by blast
  from sim_create_logical_connections [OF rc d] obtain h'
    where d': "create_logical_connections tid tref lp hc = (None, h')" and rd: "replays g0 h0 g' h'"
    by blast
  from a' b' c' d' have "build_steps md parse tid tref pp lp h = (None, h')"
    unfolding build_steps_success by blast
  with rd show ?thesis by blast
qed

lemma stream_managers_success_decodes:
  "for_each (create_stream_manager md tid tref) sms g = (None, g')
     \<Longrightarrow> \<exists>cs. map (\<lambda>sm. container_of_stmgr_id md (sm_id sm)) sms = map Inr cs"
proof (induction sms arbitrary: g)
  case Nil
  then show ?case by simp
next
  case (Cons sm sms)
  show ?case
  proof (cases "container_of_stmgr_id md (sm_id sm)")
    case (Inl e)
    from create_stream_manager_fail [OF Inl, of tid tref g] Cons.prems show ?thesis by simp
  next
    case (Inr c)
    from create_stream_manager_ok [OF Inr, of tid tref g] Cons.prems
    obtain g1 where "for_each (create_stream_manager md tid tref) sms g1 = (None, g')" by simp
    from Cons.IH [OF this] obtain cs
      where "map (\<lambda>sm. container_of_stmgr_id md (sm_id sm)) sms = map Inr cs" by blast
    with Inr have "map (\<lambda>sm. container_of_stmgr_id md (sm_id sm)) (sm # sms) = map Inr (c # cs)"
      by simp
    then show ?thesis by blast
  qed
qed

lemma count_vertices_filter:
  "count_vertices l tid tref g
     = length (filter (\<lambda>v. hasLabel l v \<and> has ''topology_id'' (PStr tid) v
                            \<and> has ''topology_ref'' (PStr tref) v) (vertices g))"
  by (simp add: count_vertices_def V_where_positions length_positions)

lemma tagged_has:
  "tagged tid tref v \<Longrightarrow> has ''topology_id'' (PStr tid) v \<and> has ''topology_ref'' (PStr tref) v"
  by (simp add: tagged_def has_def)

lemma stmgr_pairs_count:
  assumes "length sms = length cs"
  shows "length (filter (\<lambda>v. hasLabel ''stream_manager'' v \<and> has ''topology_id'' (PStr tid) v
                            \<and> has ''topology_ref'' (PStr tref) v)
                   (concat (map (stmgr_pair tid tref) (zip sms cs)))) = length sms"
    and "length (filter (\<lambda>v. hasLabel ''container'' v \<and> has ''topology_id'' (PStr tid) v
                            \<and> has ''topology_ref'' (PStr tref) v)
                   (concat (map (stmgr_pair tid tref) (zip sms cs)))) = length sms"
proof -
  let ?vs = "concat (map (stmgr_pair tid tref) (zip sms cs))"
  have t: "\<forall>v \<in> set ?vs. has ''topology_id'' (PStr tid) v \<and> has ''topology_ref'' (PStr tref) v"
    using stmgr_pairs_tagged [of tid tref sms cs] by (auto simp: list_all_iff dest: tagged_has)
  have eq: "filter (\<lambda>v. hasLabel l v \<and> has ''topology_id'' (PStr tid) v
                            \<and> has ''topology_ref'' (PStr tref) v) ?vs
            = filter (hasLabel l) ?vs" for l
    by (rule filter_cong) (use t in auto)
  show "length (filter (\<lambda>v. hasLabel ''stream_manager'' v \<and> has ''topology_id'' (PStr tid) v
                            \<and> has ''topology_ref'' (PStr tref) v) ?vs) = length sms"
    unfolding eq stmgr_pairs_filter_sm [OF assms] by simp
  show "length (filter (\<lambda>v. hasLabel ''container'' v \<and> has ''topology_id'' (PStr tid) v
                            \<and> has ''topology_ref'' (PStr tref) v) ?vs) = length sms"
    unfolding eq stmgr_pairs_filter_container [OF assms] using assms by simp
qed

lemma create_spouts_labels:
  assumes "create_spouts parse tid tref pp lp g = (None, g')"
  shows "\<exists>vs. vertices g' = vertices g @ vs \<and> (\<forall>v \<in> set vs. vlabel v = ''spout'')"
proof -
  from create_spouts_rows [OF assms] obtain vs
    where v: "vertices g' = vertices g @ vs" and lv: "length vs = length (spout_rows pp lp)"
      and rows: "\<forall>k < length (spout_rows pp lp). \<exists>inst info.
                   vs ! k = spout_vertex tid tref (fst (fst (spout_rows pp lp ! k)))
                              (snd (fst (spout_rows pp lp ! k))) inst info"
    by blast
  have "\<forall>k < length vs. vlabel (vs ! k) = ''spout''"
    using rows lv by (auto simp: spout_vertex_def)
  then have "\<forall>v \<in> set vs. vlabel v = ''spout''"
    by (simp add: all_set_conv_all_nth)
  with v show ?thesis by blast
qed

lemma create_bolts_labels:
  assumes "create_bolts parse tid tref pp lp g = (None, g')"
  shows "\<exists>vs. vertices g' = vertices g @ vs \<and> (\<forall>v \<in> set vs. vlabel v = ''bolt'')"
proof -
  from create_bolts_rows [OF assms] obtain vs
    where v: "vertices g' = vertices g @ vs" and lv: "length vs = length (bolt_rows pp lp)"
      and rows: "\<forall>k < length (bolt_rows pp lp). \<exists>inst info.
                   vs ! k = bolt_vertex tid tref (fst (bolt_rows pp lp ! k)) inst info"
    by blast
  have "\<forall>k < length vs. vlabel (vs ! k) = ''bolt''"
    using rows lv by (auto simp: bolt_vertex_def)
  then have "\<forall>v \<in> set vs. vlabel v = ''bolt''"
    by (simp add: all_set_conv_all_nth)
  with v show ?thesis by blast
qed

lemma build_steps_counts:
  assumes "build_steps md parse tid tref pp lp g = (None, g')"
  shows "\<exists>vs. vertices g' = vertices g @ vs
           \<and> length (filter (\<lambda>v. hasLabel ''stream_manager'' v \<and> has ''topology_id'' (PStr tid) v
                                  \<and> has ''topology_ref'' (PStr tref) v) vs) = length (stmgrs pp)
           \<and> length (filter (\<lambda>v. hasLabel ''container'' v \<and> has ''topology_id'' (PStr tid) v
                                  \<and> has ''topology_ref'' (PStr tref) v) vs) = length (stmgrs pp)"
proof -
  from assms obtain ga gb gc
    where a: "create_stream_managers md tid tref pp g = (None, ga)"
      and b: "create_spouts parse tid tref pp lp ga = (None, gb)"
      and c: "create_bolts parse tid tref pp lp gb = (None, gc)"
      and d: "create_logical_connections tid tref lp gc = (None, g')"
    unfolding build_steps_success by blast
  let ?sms = "map snd (stmgrs pp)"
  from a have a': "for_each (create_stream_manager md tid tref) ?sms g = (None, ga)"
    by (simp add: create_stream_managers_def)
  from stream_managers_success_decodes [OF a'] obtain cs
    where cs: "map (\<lambda>sm. container_of_stmgr_id md (sm_id sm)) ?sms = map Inr cs" by blast
  then have len: "length ?sms = length cs" by (metis length_map)
  let ?ps = "concat (map (stmgr_pair tid tref) (zip ?sms cs))"
  from for_each_stream_managers_ok [OF cs, of tid tref g] a'
  have va: "vertices ga = vertices g @ ?ps" by auto
  from create_spouts_labels [OF b] obtain ss
    where vb: "vertices gb = vertices ga @ ss" and ls: "\<forall>v \<in> set ss. vlabel v = ''spout''"
    by blast
  from create_bolts_labels [OF c] obtain bs
    where vc: "vertices gc = vertices gb @ bs" and lb: "\<forall>v \<in> set bs. vlabel v = ''bolt''"
    by blast
  from d have vd: "vertices g' = vertices gc"
    by (auto simp: create_logical_connections_edges)
  have none: "filter (\<lambda>v. hasLabel l v \<and> has ''topology_id'' (PStr tid) v
                         \<and> has ''topology_ref'' (PStr tref) v) (ss @ bs) = []"
    if "l \<noteq> ''spout''" "l \<noteq> ''bolt''" for l
    using ls lb that by (auto simp: filter_empty_conv hasLabel_def)
  have "vertices g' = vertices g @ (?ps @ ss @ bs)"
    by (simp add: vd vc vb va)
  moreover have "length (filter (\<lambda>v. hasLabel ''stream_manager'' v \<and> has ''topology_id'' (PStr tid) v
                                  \<and> has ''topology_ref'' (PStr tref) v) (?ps @ ss @ bs))
                   = length (stmgrs pp)"
    using stmgr_pairs_count(1) [OF len, of tid tref] none [of "''stream_manager''"] by simp
  moreover have "length (filter (\<lambda>v. hasLabel ''container'' v \<and> has ''topology_id'' (PStr tid) v
                                  \<and> has ''topology_ref'' (PStr tref) v) (?ps @ ss @ bs))
                   = length (stmgrs pp)"
    using stmgr_pairs_count(2) [OF len, of tid tref] none [of "''container''"] by simp
  ultimately show ?thesis by blast
qed

text \<open>
  C7, as the source has it. No step looks for what the store already holds before it
  creates. When a build completes, the same build run again on the resulting store completes
  as well and creates the same vertices once more, after the existing ones. So each run adds
  \<open>B\<close> \<open>stream_manager\<close> and \<open>B\<close> \<open>container\<close> vertices to the snapshot, \<open>B\<close> the number of
  entries of the stream-manager map: after two runs the snapshot holds \<open>2 * B\<close> more of each
  than before the first, and with \<open>B > 0\<close> the second run changes the store. The edges are
  not repeated one for one: the second run creates as many \<open>is_within\<close> edges as the first,
  and at least as many edges in all.
\<close>

theorem rebuild_duplicates:
  assumes "gp url cluster environ tid = Inr pp"
    and "build_topology_graph md parse gl gp url tid tref cluster environ g = (None, g1)"
  shows "\<exists>g2. build_topology_graph md parse gl gp url tid tref cluster environ g1 = (None, g2)
           \<and> grows g1 g2
           \<and> new_vertices g1 g2 = new_vertices g g1
           \<and> length (filter is_within (new_edges g1 g2))
               = length (filter is_within (new_edges g g1))
           \<and> length (new_edges g g1) \<le> length (new_edges g1 g2)
           \<and> count_vertices ''stream_manager'' tid tref g1
               = count_vertices ''stream_manager'' tid tref g + length (stmgrs pp)
           \<and> count_vertices ''container'' tid tref g1
               = count_vertices ''container'' tid tref g + length (stmgrs pp)
           \<and> count_vertices ''stream_manager'' tid tref g2
               = count_vertices ''stream_manager'' tid tref g + 2 * length (stmgrs pp)
           \<and> count_vertices ''container'' tid tref g2
               = count_vertices ''container'' tid tref g + 2 * length (stmgrs pp)
           \<and> (stmgrs pp \<noteq> [] \<longrightarrow> g2 \<noteq> g1)"
proof -
  from assms obtain lp where lp: "gl url cluster environ tid = Inr lp"
    and run1: "build_steps md parse tid tref pp lp g = (None, g1)"
    by (auto simp: build_topology_graph_def split: sum.splits)
  have gr1: "grows g g1"
    using grows_build_topology_graph [of g md parse gl gp url tid tref cluster environ] assms(2)
    by simp
  from sim_build_steps [OF replays_start [OF gr1] run1] obtain g2
    where run2: "build_steps md parse tid tref pp lp g1 = (None, g2)" and rep: "replays g g1 g1 g2"
    by blast
  have b2: "build_topology_graph md parse gl gp url tid tref cluster environ g1 = (None, g2)"
    using run2 lp assms(1) by (simp add: build_topology_graph_def)
  have gr2: "grows g1 g2"
    using grows_build_topology_graph [of g1 md parse gl gp url tid tref cluster environ] b2
    by simp
  from rep have nv: "new_vertices g1 g2 = new_vertices g g1"
    and ne: "length (new_edges g g1) \<le> length (new_edges g1 g2)"
    and nw: "length (filter is_within (new_edges g1 g2))
               = length (filter is_within (new_edges g g1))"
    by (simp_all add: replays_def)
  from build_steps_counts [OF run1] obtain vs
    where v1: "vertices g1 = vertices g @ vs"
      and csm: "length (filter (\<lambda>v. hasLabel ''stream_manager'' v \<and> has ''topology_id'' (PStr tid) v
                                  \<and> has ''topology_ref'' (PStr tref) v) vs) = length (stmgrs pp)"
      and cct: "length (filter (\<lambda>v. hasLabel ''container'' v \<and> has ''topology_id'' (PStr tid) v
                                  \<and> has ''topology_ref'' (PStr tref) v) vs) = length (stmgrs pp)"
    by blast
  from v1 have "new_vertices g g1 = vs" by (simp add: new_vertices_def)
  with nv gr2 have v2: "vertices g2 = vertices g1 @ vs"
    by (auto simp: grows_iff new_vertices_def)
  have differ: "g2 \<noteq> g1" if "stmgrs pp \<noteq> []"
  proof -
    from that csm have "vs \<noteq> []" by auto
    with v2 show ?thesis by auto
  qed
  show ?thesis
  proof (intro exI conjI impI)
    show "build_topology_graph md parse gl gp url tid tref cluster environ g1 = (None, g2)"
      by (rule b2)
    show "grows g1 g2" by (rule gr2)
    show "new_vertices g1 g2 = new_vertices g g1" by (rule nv)
    show "length (filter is_within (new_edges g1 g2))
            = length (filter is_within (new_edges g g1))" by (rule nw)
    show "length (new_edges g g1) \<le> length (new_edges g1 g2)" by (rule ne)
    show "count_vertices ''stream_manager'' tid tref g1
            = count_vertices ''stream_manager'' tid tref g + length (stmgrs pp)"
      by (simp add: count_vertices_filter v1 csm)
    show "count_vertices ''container'' tid tref g1
            = count_vertices ''container'' tid tref g + length (stmgrs pp)"
      by (simp add: count_vertices_filter v1 cct)
    show "count_vertices ''stream_manager'' tid tref g2
            = count_vertices ''stream_manager'' tid tref g + 2 * length (stmgrs pp)"
      by (simp add: count_vertices_filter v2 v1 csm)
    show "count_vertices ''container'' tid tref g2
            = count_vertices ''container'' tid tref g + 2 * length (stmgrs pp)"
      by (simp add: count_vertices_filter v2 v1 cct)
    assume "stmgrs pp \<noteq> []"
    then show "g2 \<noteq> g1" by (rule differ)
  qed
qed

theorem rebuild_duplicates_witness:
  "fst (build_topology_graph demo_max_str_digits demo_parse demo_get_logical_plan demo_get_physical_plan
          ''tracker'' ''topo'' ''ref-1'' ''cluster'' ''prod''
          (snd (build_topology_graph demo_max_str_digits demo_parse demo_get_logical_plan demo_get_physical_plan
                  ''tracker'' ''topo'' ''ref-1'' ''cluster'' ''prod'' empty_graph))) = None
   \<and> count_vertices ''stream_manager'' ''topo'' ''ref-1''
        (snd (build_topology_graph demo_max_str_digits demo_parse demo_get_logical_plan demo_get_physical_plan
                ''tracker'' ''topo'' ''ref-1'' ''cluster'' ''prod''
                (snd (build_topology_graph demo_max_str_digits demo_parse demo_get_logical_plan demo_get_physical_plan
                        ''tracker'' ''topo'' ''ref-1'' ''cluster'' ''prod'' empty_graph)))) = 2
   \<and> count_vertices ''container'' ''topo'' ''ref-1''
        (snd (build_topology_graph demo_max_str_digits demo_parse demo_get_logical_plan demo_get_physical_plan
                ''tracker'' ''topo'' ''ref-1'' ''cluster'' ''prod''
                (snd (build_topology_graph demo_max_str_digits demo_parse demo_get_logical_plan demo_get_physical_plan
                        ''tracker'' ''topo'' ''ref-1'' ''cluster'' ''prod'' empty_graph)))) = 2"
proof -
  let ?g1 = "snd (build_topology_graph demo_max_str_digits demo_parse demo_get_logical_plan demo_get_physical_plan
                  ''tracker'' ''topo'' ''ref-1'' ''cluster'' ''prod'' empty_graph)"
  have a: "demo_get_physical_plan ''tracker'' ''cluster'' ''prod'' ''topo'' = Inr demo_physical_plan"
    by (simp add: demo_get_physical_plan_def)
  have b: "build_topology_graph demo_max_str_digits demo_parse demo_get_logical_plan demo_get_physical_plan
             ''tracker'' ''topo'' ''ref-1'' ''cluster'' ''prod'' empty_graph = (None, ?g1)"
    by code_simp
  have z: "count_vertices ''stream_manager'' ''topo'' ''ref-1'' empty_graph = 0
           \<and> count_vertices ''container'' ''topo'' ''ref-1'' empty_graph = 0
           \<and> length (stmgrs demo_physical_plan) = 1"
    by code_simp
  from rebuild_duplicates [where gp = demo_get_physical_plan and url = "''tracker''"
      and cluster = "''cluster''" and environ = "''prod''" and tid = "''topo''"
      and pp = demo_physical_plan and parse = demo_parse and gl = demo_get_logical_plan
      and tref = "''ref-1''" and g = empty_graph and ?g1.0 = ?g1, OF a b]
  obtain g2 where "build_topology_graph demo_max_str_digits demo_parse demo_get_logical_plan demo_get_physical_plan
                     ''tracker'' ''topo'' ''ref-1'' ''cluster'' ''prod'' ?g1 = (None, g2)"
    and "count_vertices ''stream_manager'' ''topo'' ''ref-1'' g2
           = count_vertices ''stream_manager'' ''topo'' ''ref-1'' empty_graph
             + 2 * length (stmgrs demo_physical_plan)"
    and "count_vertices ''container'' ''topo'' ''ref-1'' g2
           = count_vertices ''container'' ''topo'' ''ref-1'' empty_graph
             + 2 * length (stmgrs demo_physical_plan)"
    by blast
  with z show ?thesis by simp
qed

text \<open>
  C7, as the claim states it, fails on the sample topology run twice on an empty store.
  The first run creates six edges. The second creates twelve: the \<open>is_within\<close> edges of its
  three instances lead to vertex 1, the container vertex of the first run, and its eight
  \<open>logically_connected\<close> edges join the spouts of both runs (vertices 2, 3, 7, 8) to the
  bolts of both runs (vertices 4, 9), so the edges of the first run are not created once
  more each.
\<close>

theorem rebuild_edges_counterexample:
  "map elabel (edges (snd (build_topology_graph demo_max_str_digits demo_parse
      demo_get_logical_plan demo_get_physical_plan ''tracker'' ''topo'' ''ref-1'' ''cluster''
      ''prod'' empty_graph)))
     = [''is_within'', ''is_within'', ''is_within'', ''is_within'',
        ''logically_connected'', ''logically_connected'']
   \<and> map elabel
        (new_edges
           (snd (build_topology_graph demo_max_str_digits demo_parse demo_get_logical_plan
                   demo_get_physical_plan ''tracker'' ''topo'' ''ref-1'' ''cluster'' ''prod''
                   empty_graph))
           (snd (build_topology_graph demo_max_str_digits demo_parse demo_get_logical_plan
                   demo_get_physical_plan ''tracker'' ''topo'' ''ref-1'' ''cluster'' ''prod''
                   (snd (build_topology_graph demo_max_str_digits demo_parse
                           demo_get_logical_plan demo_get_physical_plan ''tracker'' ''topo''
                           ''ref-1'' ''cluster'' ''prod'' empty_graph)))))
     = [''is_within'', ''is_within'', ''is_within'', ''is_within'',
        ''logically_connected'', ''logically_connected'', ''logically_connected'',
        ''logically_connected'', ''logically_connected'', ''logically_connected'',
        ''logically_connected'', ''logically_connected'']
   \<and> map outV
        (new_edges
           (snd (build_topology_graph demo_max_str_digits demo_parse demo_get_logical_plan
                   demo_get_physical_plan ''tracker'' ''topo'' ''ref-1'' ''cluster'' ''prod''
                   empty_graph))
           (snd (build_topology_graph demo_max_str_digits demo_parse demo_get_logical_plan
                   demo_get_physical_plan ''tracker'' ''topo'' ''ref-1'' ''cluster'' ''prod''
                   (snd (build_topology_graph demo_max_str_digits demo_parse
                           demo_get_logical_plan demo_get_physical_plan ''tracker'' ''topo''
                           ''ref-1'' ''cluster'' ''prod'' empty_graph)))))
     = [5, 7, 8, 9, 2, 3, 7, 8, 2, 3, 7, 8]
   \<and> map inV
        (new_edges
           (snd (build_topology_graph demo_max_str_digits demo_parse demo_get_logical_plan
                   demo_get_physical_plan ''tracker'' ''topo'' ''ref-1'' ''cluster'' ''prod''
                   empty_graph))
           (snd (build_topology_graph demo_max_str_digits demo_parse demo_get_logical_plan
                   demo_get_physical_plan ''tracker'' ''topo'' ''ref-1'' ''cluster'' ''prod''
                   (snd (build_topology_graph demo_max_str_digits demo_parse
                           demo_get_logical_plan demo_get_physical_plan ''tracker'' ''topo''
                           ''ref-1'' ''cluster'' ''prod'' empty_graph)))))
     = [6, 1, 1, 1, 4, 4, 4, 4, 9, 9, 9, 9]"
  by code_simp

end
